theory Spec2Isabelle
  imports Main "HOL-Library.Sublist"
begin

section \<open>Python values used by MailHarvest.py\<close>

text \<open>
  A Python \<open>str\<close> is a sequence of Unicode code points, so it is modelled as a list of
  natural numbers (the entity table of \<open>_html_to_text\<close> produces U+20AC, and
  \<open>chr\<close> any code point below 0x110000). A \<open>bytes\<close> object is a list of 8-bit
  characters. \<open>ustr\<close> writes an ASCII literal as a \<open>str\<close>.
\<close>

type_synonym ustring = "nat list"
type_synonym bytes = "char list"

definition ustr :: "string \<Rightarrow> ustring" where
  "ustr s = map of_char s"

datatype py_error =
    ValueError ustring
  | OverflowError
  | TypeError
  | AttributeError
  | LookupError
  | UnicodeDecodeError
  | HeaderParseError
  | IMAPError

text \<open>\<open>str(x)\<close> of an optional header value: \<open>str(None)\<close> is the text \<open>None\<close>.\<close>

fun py_str :: "ustring option \<Rightarrow> ustring" where
  "py_str None = ustr ''None''"
| "py_str (Some s) = s"

text \<open>\<open>s.find(pat)\<close>: the index of the first occurrence; \<open>pat in s\<close> is its success.\<close>

fun str_find :: "'a list \<Rightarrow> 'a list \<Rightarrow> nat option" where
  "str_find pat [] = (if pat = [] then Some 0 else None)"
| "str_find pat (c # cs) =
     (if prefix pat (c # cs) then Some 0 else map_option Suc (str_find pat cs))"

definition str_contains :: "'a list \<Rightarrow> 'a list \<Rightarrow> bool" where
  "str_contains pat s = (str_find pat s \<noteq> None)"

text \<open>\<open>sep.join(parts)\<close>.\<close>

fun join :: "ustring \<Rightarrow> ustring list \<Rightarrow> ustring" where
  "join sep [] = []"
| "join sep [x] = x"
| "join sep (x # y # ys) = x @ sep @ join sep (y # ys)"

text \<open>
  Unicode whitespace as CPython decides it for \<open>str.strip()\<close>, \<open>str.isspace()\<close> and the
  class \<open>\s\<close> of a \<open>str\<close> pattern: the same predicate in all three.
\<close>

definition is_space :: "nat \<Rightarrow> bool" where
  "is_space c =
     ((9 \<le> c \<and> c \<le> 13) \<or> (28 \<le> c \<and> c \<le> 32) \<or> c = 133 \<or> c = 160 \<or> c = 5760
      \<or> (8192 \<le> c \<and> c \<le> 8202) \<or> c = 8232 \<or> c = 8233 \<or> c = 8239 \<or> c = 8287
      \<or> c = 12288)"

definition str_strip :: "ustring \<Rightarrow> ustring" where
  "str_strip s = rev (dropWhile is_space (rev (dropWhile is_space s)))"

text \<open>\<open>xs[i:]\<close>: a negative start counts from the end and is clipped at 0.\<close>

definition slice_from :: "int \<Rightarrow> 'a list \<Rightarrow> 'a list" where
  "slice_from i xs =
     (let n = int (length xs);
          start = (if i < 0 then max 0 (n + i) else min i n)
      in drop (nat start) xs)"

text \<open>\<open>b.split()\<close> on bytes: split at runs of ASCII whitespace, no empty fields.\<close>

definition is_bspace :: "char \<Rightarrow> bool" where
  "is_bspace c = ((9 \<le> (of_char c :: nat) \<and> (of_char c :: nat) \<le> 13) \<or> (of_char c :: nat) = 32)"

function bytes_split :: "bytes \<Rightarrow> bytes list" where
  "bytes_split [] = []"
| "bytes_split (c # cs) =
     (if is_bspace c then bytes_split cs
      else takeWhile (\<lambda>b. \<not> is_bspace b) (c # cs)
             # bytes_split (dropWhile (\<lambda>b. \<not> is_bspace b) cs))"
  by pat_completeness auto
termination
  by (relation "measure length") (auto simp: length_dropWhile_le le_imp_less_Suc)

section \<open>Parsed messages\<close>

text \<open>
  What the code reads of a parsed \<open>email.message\<close> object: \<open>get_content_type()\<close>, the
  \<open>Content-Disposition\<close> header (absent: \<open>None\<close>), and either the decoded payload of a
  leaf (\<open>get_payload(decode=True)\<close>; \<open>None\<close> when the call gives \<open>None\<close> or raises, which
  every call site treats alike) or the list of sub-parts (\<open>is_multipart()\<close>).
\<close>

datatype message =
    Leaf (get_content_type: ustring) (get_disposition: "ustring option")
         (leaf_payload: "bytes option")
  | Multipart (get_content_type: ustring) (get_disposition: "ustring option")
         (subparts: "message list")

fun is_multipart :: "message \<Rightarrow> bool" where
  "is_multipart (Leaf ct cd p) = False"
| "is_multipart (Multipart ct cd ps) = True"

fun get_payload :: "message \<Rightarrow> bytes option" where
  "get_payload (Leaf ct cd p) = p"
| "get_payload (Multipart ct cd ps) = None"

text \<open>\<open>msg.walk()\<close>: the part itself, then every sub-part, depth first.\<close>

fun walk :: "message \<Rightarrow> message list" where
  "walk (Leaf ct cd p) = [Leaf ct cd p]"
| "walk (Multipart ct cd ps) = Multipart ct cd ps # concat (map walk ps)"

record email_message =
  hdr_subject :: "ustring option"
  hdr_from :: "ustring option"
  hdr_date :: "ustring option"
  msg_root :: message

datatype hdr_chunk = BytesChunk bytes "ustring option" | StrChunk ustring

section \<open>Library functions the code calls\<close>

text \<open>
  The standard-library functions whose tables are not part of the repository are
  parameters of the model: the codecs, \<open>str.lower\<close>, the class \<open>\d\<close> of Unicode
  decimal digits with \<open>int\<close> on a run of them, \<open>email.header.decode_header\<close>,
  \<open>parsedate_to_datetime\<close> followed by \<open>strftime\<close>, and the MIME parser. A function
  that can raise returns a sum.
\<close>

record pylib =
  utf8_replace :: "bytes \<Rightarrow> ustring"
  codec_replace :: "ustring \<Rightarrow> bytes \<Rightarrow> py_error + ustring"
  utf8_strict :: "bytes \<Rightarrow> py_error + ustring"
  str_lower :: "ustring \<Rightarrow> ustring"
  re_digit :: "nat \<Rightarrow> bool"
  int_of_digits :: "ustring \<Rightarrow> py_error + nat"
  decode_header :: "ustring \<Rightarrow> py_error + hdr_chunk list"
  parsedate_strftime :: "ustring \<Rightarrow> py_error + ustring"
  parsebytes :: "bytes \<Rightarrow> py_error + email_message"
  parse_stream :: "bytes \<Rightarrow> py_error + email_message"

section \<open>Regular-expression substitution\<close>

text \<open>
  \<open>re.sub(pattern, repl, s)\<close> for a pattern that cannot match the empty string: scan
  from the left; where the pattern matches at the current position, emit the
  replacement and continue after the match, otherwise emit the character and move one
  position on. A matcher gives the length of the match at the start of its argument
  (at least 1 for every pattern of the source).
\<close>

fun re_sub :: "(ustring \<Rightarrow> nat option) \<Rightarrow> ustring \<Rightarrow> ustring \<Rightarrow> ustring" where
  "re_sub m repl [] = []"
| "re_sub m repl (c # cs) =
     (case m (c # cs) of
        None \<Rightarrow> c # re_sub m repl cs
      | Some n \<Rightarrow> repl @ re_sub m repl (drop (n - 1) cs))"

text \<open>The same with a replacement function of the matched group, which may raise.\<close>

fun re_sub_fn :: "(ustring \<Rightarrow> (nat \<times> ustring) option) \<Rightarrow> (ustring \<Rightarrow> py_error + ustring)
                    \<Rightarrow> ustring \<Rightarrow> py_error + ustring" where
  "re_sub_fn m f [] = Inr []"
| "re_sub_fn m f (c # cs) =
     (case m (c # cs) of
        None \<Rightarrow> (case re_sub_fn m f cs of Inl e \<Rightarrow> Inl e | Inr t \<Rightarrow> Inr (c # t))
      | Some (n, g) \<Rightarrow>
          (case f g of
             Inl e \<Rightarrow> Inl e
           | Inr r \<Rightarrow> (case re_sub_fn m f (drop (n - 1) cs) of
                        Inl e \<Rightarrow> Inl e
                      | Inr t \<Rightarrow> Inr (r @ t))))"

text \<open>\<open>s.replace(old, new)\<close> for a non-empty \<open>old\<close>.\<close>

definition match_literal :: "ustring \<Rightarrow> ustring \<Rightarrow> nat option" where
  "match_literal old s = (if old \<noteq> [] \<and> prefix old s then Some (length old) else None)"

definition str_replace :: "ustring \<Rightarrow> ustring \<Rightarrow> ustring \<Rightarrow> ustring" where
  "str_replace old new s = re_sub (match_literal old) new s"

text \<open>
  \<open><tag.*?>.*?</tag>\<close> with \<open>re.DOTALL\<close>: after the literal \<open><tag\<close> the first lazy
  group ends before the first \<open>>\<close> (if the rest fails to match there it fails after
  every later \<open>>\<close> too, which has no more closing tags behind it), and the second
  lazy group ends before the first closing tag after that \<open>>\<close>.
\<close>

definition match_block :: "ustring \<Rightarrow> ustring \<Rightarrow> nat option" where
  "match_block tag s =
     (let opn = ustr ''<'' @ tag; cls = ustr ''</'' @ tag @ ustr ''>'' in
      if prefix opn s then
        (case str_find (ustr ''>'') (drop (length opn) s) of
           None \<Rightarrow> None
         | Some j \<Rightarrow>
             (case str_find cls (drop (length opn + j + 1) s) of
                None \<Rightarrow> None
              | Some k \<Rightarrow> Some (length opn + j + 1 + k + length cls)))
      else None)"

text \<open>
  \<open><(div|p|h\d|br|li|tr)[^>]*?>\<close>: the alternatives in the order of the pattern (no two
  of them match at the same place), then up to the first \<open>>\<close>.
\<close>

definition match_alt :: "pylib \<Rightarrow> ustring \<Rightarrow> nat option" where
  "match_alt L r =
     (if prefix (ustr ''div'') r then Some 3
      else if prefix (ustr ''p'') r then Some 1
      else if prefix (ustr ''h'') r \<and> 2 \<le> length r \<and> re_digit L (r ! 1) then Some 2
      else if prefix (ustr ''br'') r then Some 2
      else if prefix (ustr ''li'') r then Some 2
      else if prefix (ustr ''tr'') r then Some 2
      else None)"

definition match_open_block :: "pylib \<Rightarrow> ustring \<Rightarrow> nat option" where
  "match_open_block L s =
     (if prefix (ustr ''<'') s then
        (case match_alt L (drop 1 s) of
           None \<Rightarrow> None
         | Some a \<Rightarrow>
             (case str_find (ustr ''>'') (drop (1 + a) s) of
                None \<Rightarrow> None
              | Some j \<Rightarrow> Some (1 + a + j + 1)))
      else None)"

text \<open>\<open><[^>]*?>\<close>: from a \<open><\<close> to the first \<open>>\<close> after it.\<close>

definition match_tag :: "ustring \<Rightarrow> nat option" where
  "match_tag s =
     (if prefix (ustr ''<'') s then
        (case str_find (ustr ''>'') (drop 1 s) of
           None \<Rightarrow> None
         | Some j \<Rightarrow> Some (1 + j + 1))
      else None)"

text \<open>\<open>\n+\<close> and \<open>\s+\<close>: the longest run at the current position, if not empty.\<close>

definition match_run :: "(nat \<Rightarrow> bool) \<Rightarrow> ustring \<Rightarrow> nat option" where
  "match_run P s = (if takeWhile P s = [] then None else Some (length (takeWhile P s)))"

definition match_newlines :: "ustring \<Rightarrow> nat option" where
  "match_newlines s = match_run (\<lambda>c. c = 10) s"

definition match_spaces :: "ustring \<Rightarrow> nat option" where
  "match_spaces s = match_run is_space s"

text \<open>
  \<open>&#(\d+);\<close>: the greedy digit run must be followed at once by \<open>;\<close> (a shorter run is
  followed by a digit). The group is the digit run.
\<close>

definition match_numeric :: "pylib \<Rightarrow> ustring \<Rightarrow> (nat \<times> ustring) option" where
  "match_numeric L s =
     (if prefix (ustr ''&#'') s then
        (let ds = takeWhile (re_digit L) (drop 2 s) in
         if ds \<noteq> [] \<and> prefix (ustr '';'') (drop (2 + length ds) s)
         then Some (2 + length ds + 1, ds) else None)
      else None)"

text \<open>
  \<open>chr(int(m.group(1)))\<close>: \<open>chr\<close> raises \<open>ValueError\<close> from 0x110000 on and
  \<open>OverflowError\<close> beyond a C \<open>int\<close>.
\<close>

definition chr_of_group :: "pylib \<Rightarrow> ustring \<Rightarrow> py_error + ustring" where
  "chr_of_group L g =
     (case int_of_digits L g of
        Inl e \<Rightarrow> Inl e
      | Inr v \<Rightarrow>
          if v < 1114112 then Inr [v]
          else if v < 2147483648 then Inl (ValueError (ustr ''chr() arg not in range(0x110000)''))
          else Inl OverflowError)"

section \<open>\<open>ImapEmailConnector._html_to_text\<close>\<close>

definition entities :: "(ustring \<times> ustring) list" where
  "entities =
     [(ustr ''&nbsp;'', ustr '' ''),
      (ustr ''&amp;'', ustr ''&''),
      (ustr ''&lt;'', ustr ''<''),
      (ustr ''&gt;'', ustr ''>''),
      (ustr ''&quot;'', [34]),
      (ustr ''&#39;'', [39]),
      (ustr ''&apos;'', [39]),
      (ustr ''&cent;'', [162]),
      (ustr ''&pound;'', [163]),
      (ustr ''&yen;'', [165]),
      (ustr ''&euro;'', [8364]),
      (ustr ''&copy;'', [169]),
      (ustr ''&reg;'', [174])]"

definition replace_entities :: "ustring \<Rightarrow> ustring" where
  "replace_entities s = foldl (\<lambda>acc (entity, replacement). str_replace entity replacement acc) s entities"

definition remove_scripts_styles :: "ustring \<Rightarrow> ustring" where
  "remove_scripts_styles s =
     re_sub (match_block (ustr ''style'')) (ustr '' '')
       (re_sub (match_block (ustr ''script'')) (ustr '' '') s)"

text \<open>\<open>re.sub(r'\s+', ' ', s)\<close>, the call both extraction functions end with.\<close>

definition collapse_ws :: "ustring \<Rightarrow> ustring" where
  "collapse_ws s = re_sub match_spaces (ustr '' '') s"

definition clean_whitespace :: "ustring \<Rightarrow> ustring" where
  "clean_whitespace s = str_strip (collapse_ws (re_sub match_newlines [10] s))"

definition html_to_text :: "pylib \<Rightarrow> ustring \<Rightarrow> py_error + ustring" where
  "html_to_text L html_content =
     (let s2 = remove_scripts_styles html_content;
          s3 = re_sub (match_open_block L) [10] s2;
          s4 = replace_entities s3
      in case re_sub_fn (match_numeric L) (chr_of_group L) s4 of
           Inl e \<Rightarrow> Inl e
         | Inr s5 \<Rightarrow> Inr (clean_whitespace (re_sub match_tag [] s5)))"

section \<open>\<open>ImapEmailConnector._get_email_content\<close>\<close>

definition is_attachment :: "message \<Rightarrow> bool" where
  "is_attachment part = str_contains (ustr ''attachment'') (py_str (get_disposition part))"

text \<open>One round of the loop over \<open>msg.walk()\<close>, on the two buffers.\<close>

definition accumulate_part :: "pylib \<Rightarrow> ustring \<times> ustring \<Rightarrow> message \<Rightarrow> ustring \<times> ustring" where
  "accumulate_part L bufs part =
     (case bufs of (plain_content, html_content) \<Rightarrow>
      if is_attachment part then (plain_content, html_content)
      else if get_content_type part = ustr ''text/plain'' then
        (case get_payload part of
           Some payload \<Rightarrow>
             if payload \<noteq> [] then (plain_content @ utf8_replace L payload, html_content)
             else (plain_content, html_content)
         | None \<Rightarrow> (plain_content, html_content))
      else if get_content_type part = ustr ''text/html'' then
        (case get_payload part of
           Some payload \<Rightarrow>
             if payload \<noteq> [] then (plain_content, html_content @ utf8_replace L payload)
             else (plain_content, html_content)
         | None \<Rightarrow> (plain_content, html_content))
      else (plain_content, html_content))"

definition single_part :: "pylib \<Rightarrow> message \<Rightarrow> ustring \<times> ustring" where
  "single_part L msg =
     (case get_payload msg of
        Some payload \<Rightarrow>
          if payload \<noteq> [] then
            (if get_content_type msg = ustr ''text/plain'' then (utf8_replace L payload, [])
             else if get_content_type msg = ustr ''text/html'' then ([], utf8_replace L payload)
             else ([], []))
          else ([], [])
      | None \<Rightarrow> ([], []))"

definition collect_buffers :: "pylib \<Rightarrow> message \<Rightarrow> ustring \<times> ustring" where
  "collect_buffers L msg =
     (if is_multipart msg then foldl (accumulate_part L) ([], []) (walk msg)
      else single_part L msg)"

text \<open>The parameter \<open>plain_text_only\<close> is received and never read, as in the source.\<close>

definition get_email_content :: "pylib \<Rightarrow> message \<Rightarrow> bool \<Rightarrow> py_error + ustring" where
  "get_email_content L msg plain_text_only =
     (case collect_buffers L msg of (plain_content, html_content) \<Rightarrow>
        (case (if plain_content \<noteq> [] then Inr plain_content
               else if html_content \<noteq> [] then html_to_text L html_content
               else Inr []) of
           Inl e \<Rightarrow> Inl e
         | Inr content \<Rightarrow> Inr (str_strip (collapse_ws content))))"

section \<open>\<open>ImapEmailConnector._decode_header\<close> and \<open>_parse_date\<close>\<close>

text \<open>One round of the loop over the decoded chunks; an unknown charset raises.\<close>

fun decode_chunk :: "pylib \<Rightarrow> hdr_chunk \<Rightarrow> py_error + ustring" where
  "decode_chunk L (BytesChunk content encoding) =
     (case encoding of
        Some enc \<Rightarrow> if enc \<noteq> [] then codec_replace L enc content
                    else Inr (utf8_replace L content)
      | None \<Rightarrow> Inr (utf8_replace L content))"
| "decode_chunk L (StrChunk content) = Inr content"

fun decode_chunks :: "pylib \<Rightarrow> hdr_chunk list \<Rightarrow> py_error + ustring list" where
  "decode_chunks L [] = Inr []"
| "decode_chunks L (c # cs) =
     (case decode_chunk L c of
        Inl e \<Rightarrow> Inl e
      | Inr p \<Rightarrow> (case decode_chunks L cs of Inl e \<Rightarrow> Inl e | Inr ps \<Rightarrow> Inr (p # ps)))"

definition decode_header_value :: "pylib \<Rightarrow> ustring option \<Rightarrow> py_error + ustring" where
  "decode_header_value L header =
     (case header of
        None \<Rightarrow> Inr []
      | Some h \<Rightarrow>
          if h = [] then Inr []
          else (case decode_header L h of
                  Inl e \<Rightarrow> Inl e
                | Inr decoded_header \<Rightarrow>
                    (case decode_chunks L decoded_header of
                       Inl e \<Rightarrow> Inl e
                     | Inr header_parts \<Rightarrow> Inr (join (ustr '' '') header_parts))))"

definition parse_date :: "pylib \<Rightarrow> ustring option \<Rightarrow> ustring" where
  "parse_date L date_str =
     (case date_str of
        None \<Rightarrow> []
      | Some d \<Rightarrow>
          if d = [] then []
          else (case parsedate_strftime L d of Inl e \<Rightarrow> d | Inr formatted \<Rightarrow> formatted))"

section \<open>The IMAP connection and \<open>ImapEmailConnector\<close>\<close>

text \<open>
  The server is scripted: each field is what the \<open>imaplib\<close> call of that name returns
  (\<open>Inl\<close>: it raises). \<open>search_all\<close> gives the status and \<open>message_ids[0]\<close>, which
  \<open>imaplib\<close> leaves \<open>None\<close> when the server sent no listing. \<open>fetch_rfc822\<close> gives the
  status and \<open>msg_data[0][1]\<close>, \<open>None\<close> when \<open>msg_data[0]\<close> is not an (envelope, literal)
  pair, where the subscript raises.
\<close>

record imap_handle =
  select_inbox :: "py_error + ustring"
  search_all :: "py_error + ustring \<times> bytes option"
  fetch_rfc822 :: "bytes \<Rightarrow> py_error + ustring \<times> bytes option"
  close_mailbox :: "py_error + unit"
  logout :: "py_error + unit"

datatype connector_class =
  GmailConnector | OutlookConnector | YahooMailConnector | AOLMailConnector | ZohoMailConnector

record connector =
  cls :: connector_class
  username :: ustring
  password :: ustring
  imap_server :: ustring
  imap_port :: int
  imap :: "imap_handle option"

record email_record =
  rec_id :: ustring
  rec_subject :: ustring
  rec_from :: ustring
  rec_date :: ustring
  rec_content :: ustring

text \<open>The loop over \<open>exclude_senders\<close> with its \<open>break\<close>.\<close>

fun should_exclude :: "pylib \<Rightarrow> ustring list \<Rightarrow> ustring \<Rightarrow> bool" where
  "should_exclude L [] from_address = False"
| "should_exclude L (exclude_sender # rest) from_address =
     (if str_contains (str_lower L exclude_sender) (str_lower L from_address) then True
      else should_exclude L rest from_address)"

text \<open>The inner loop of the fallback: every non-empty payload of the walk, decoded.\<close>

fun all_payloads :: "pylib \<Rightarrow> message list \<Rightarrow> ustring list" where
  "all_payloads L [] = []"
| "all_payloads L (part # parts) =
     (case get_payload part of
        Some payload \<Rightarrow>
          if payload \<noteq> [] then utf8_replace L payload # all_payloads L parts
          else all_payloads L parts
      | None \<Rightarrow> all_payloads L parts)"

text \<open>
  The fallback of \<open>fetch_emails\<close>, entered with an empty \<open>content\<close>; an exception of
  \<open>_html_to_text\<close> is caught here and leaves \<open>content\<close> empty.
\<close>

definition fallback_content :: "pylib \<Rightarrow> message \<Rightarrow> ustring" where
  "fallback_content L msg =
     (let all_parts = all_payloads L (walk msg) in
      if all_parts \<noteq> [] then
        (let combined = join (ustr '' '') all_parts in
         if str_contains (ustr ''<'') combined \<and> str_contains (ustr ''>'') combined then
           (case html_to_text L combined of Inl e \<Rightarrow> [] | Inr t \<Rightarrow> t)
         else combined)
      else [])"

text \<open>\<open>parsebytes\<close>, and the stream parser when it raises \<open>AttributeError\<close>.\<close>

definition parse_raw :: "pylib \<Rightarrow> bytes \<Rightarrow> py_error + email_message" where
  "parse_raw L raw_email =
     (case parsebytes L raw_email of
        Inl AttributeError \<Rightarrow> parse_stream L raw_email
      | Inl e \<Rightarrow> Inl e
      | Inr msg \<Rightarrow> Inr msg)"

text \<open>
  The body of the loop over \<open>id_list\<close>: \<open>Inr None\<close> is a \<open>continue\<close>,
  \<open>Inr (Some r)\<close> the record appended, \<open>Inl e\<close> an exception leaving \<open>fetch_emails\<close>.
\<close>

definition process_message ::
  "pylib \<Rightarrow> imap_handle \<Rightarrow> bool \<Rightarrow> ustring list \<Rightarrow> bytes \<Rightarrow> py_error + email_record option" where
  "process_message L h plain_text_only exclude_senders email_id =
     (case fetch_rfc822 h email_id of
        Inl e \<Rightarrow> Inl e
      | Inr (status, msg_data) \<Rightarrow>
          if status \<noteq> ustr ''OK'' then Inr None
          else (case msg_data of
             None \<Rightarrow> Inl TypeError
           | Some raw_email \<Rightarrow>
          (case parse_raw L raw_email of
             Inl e \<Rightarrow> Inl e
           | Inr msg \<Rightarrow>
          (case decode_header_value L (hdr_subject msg) of
             Inl e \<Rightarrow> Inl e
           | Inr subject \<Rightarrow>
          (case decode_header_value L (hdr_from msg) of
             Inl e \<Rightarrow> Inl e
           | Inr from_address \<Rightarrow>
          (let date = parse_date L (hdr_date msg) in
           if should_exclude L exclude_senders from_address then Inr None
           else
          (case get_email_content L (msg_root msg) plain_text_only of
             Inl e \<Rightarrow> Inl e
           | Inr content0 \<Rightarrow>
          (let content = (if content0 = [] then fallback_content L (msg_root msg) else content0) in
          (case utf8_strict L email_id of
             Inl e \<Rightarrow> Inl e
           | Inr id_str \<Rightarrow>
               Inr (Some \<lparr>rec_id = id_str, rec_subject = subject, rec_from = from_address,
                          rec_date = date, rec_content = content\<rparr>))))))))))"

fun fetch_loop ::
  "pylib \<Rightarrow> imap_handle \<Rightarrow> bool \<Rightarrow> ustring list \<Rightarrow> email_record list \<Rightarrow> bytes list
     \<Rightarrow> py_error + email_record list" where
  "fetch_loop L h plain_text_only exclude_senders emails [] = Inr emails"
| "fetch_loop L h plain_text_only exclude_senders emails (email_id # ids) =
     (case process_message L h plain_text_only exclude_senders email_id of
        Inl e \<Rightarrow> Inl e
      | Inr None \<Rightarrow> fetch_loop L h plain_text_only exclude_senders emails ids
      | Inr (Some r) \<Rightarrow> fetch_loop L h plain_text_only exclude_senders (emails @ [r]) ids)"

text \<open>\<open>if limit and limit > 0: id_list = id_list[-limit:]\<close>.\<close>

definition apply_limit :: "int option \<Rightarrow> 'a list \<Rightarrow> 'a list" where
  "apply_limit limit id_list =
     (case limit of
        None \<Rightarrow> id_list
      | Some l \<Rightarrow> if l \<noteq> 0 \<and> l > 0 then slice_from (- l) id_list else id_list)"

definition fetch_emails ::
  "pylib \<Rightarrow> connector \<Rightarrow> int option \<Rightarrow> bool \<Rightarrow> ustring list option
     \<Rightarrow> py_error + email_record list" where
  "fetch_emails L self limit plain_text_only exclude_senders_opt =
     (let exclude_senders = (case exclude_senders_opt of None \<Rightarrow> [] | Some xs \<Rightarrow> xs) in
      case imap self of
        None \<Rightarrow> Inl AttributeError
      | Some h \<Rightarrow>
          (case select_inbox h of
             Inl e \<Rightarrow> Inl e
           | Inr status \<Rightarrow>
               if status \<noteq> ustr ''OK'' then Inr []
               else (case search_all h of
                  Inl e \<Rightarrow> Inl e
                | Inr (status2, message_ids) \<Rightarrow>
                    if status2 \<noteq> ustr ''OK'' then Inr []
                    else (case message_ids of
                       None \<Rightarrow> Inl AttributeError
                     | Some listing \<Rightarrow>
                         fetch_loop L h plain_text_only exclude_senders []
                           (apply_limit limit (bytes_split listing))))))"

text \<open>
  \<open>disconnect\<close>: the result is the list of commands that reached the server without
  raising; the bare \<open>except\<close> swallows whatever \<open>close\<close> or \<open>logout\<close> raises.
\<close>

datatype imap_command = Close | Logout

definition disconnect :: "connector \<Rightarrow> py_error + imap_command list" where
  "disconnect self =
     (case imap self of
        None \<Rightarrow> Inr []
      | Some h \<Rightarrow>
          (case close_mailbox h of
             Inl e \<Rightarrow> Inr []
           | Inr u \<Rightarrow> (case logout h of Inl e \<Rightarrow> Inr [Close] | Inr v \<Rightarrow> Inr [Close, Logout])))"

section \<open>\<open>EmailConnectorFactory.create_connector\<close>\<close>

definition new_connector :: "connector_class \<Rightarrow> ustring \<Rightarrow> ustring \<Rightarrow> ustring \<Rightarrow> int \<Rightarrow> connector" where
  "new_connector c u p server port =
     \<lparr>cls = c, username = u, password = p, imap_server = server, imap_port = port, imap = None\<rparr>"

definition create_connector :: "pylib \<Rightarrow> ustring \<Rightarrow> ustring \<Rightarrow> ustring \<Rightarrow> py_error + connector" where
  "create_connector L provider0 u p =
     (let provider = str_lower L provider0 in
      if provider = ustr ''gmail'' then Inr (new_connector GmailConnector u p (ustr ''imap.gmail.com'') 993)
      else if provider = ustr ''outlook'' then
        Inr (new_connector OutlookConnector u p (ustr ''outlook.office365.com'') 993)
      else if provider = ustr ''yahoo'' then
        Inr (new_connector YahooMailConnector u p (ustr ''imap.mail.yahoo.com'') 993)
      else if provider = ustr ''aol'' then Inr (new_connector AOLMailConnector u p (ustr ''imap.aol.com'') 993)
      else if provider = ustr ''zoho'' then Inr (new_connector ZohoMailConnector u p (ustr ''imap.zoho.com'') 993)
      else Inl (ValueError (ustr ''Unsupported email provider: '' @ provider)))"

section \<open>A concrete library for ASCII data\<close>

text \<open>
  The library functions on ASCII input, where the codecs are the identity on bytes below
  128 (other bytes give U+FFFD here), \<open>lower\<close> maps \<open>A-Z\<close> to \<open>a-z\<close>, the digits are
  \<open>0-9\<close>, a header without encoded words is a single text chunk, and the parser reads
  nothing but a plain-text body. It is used to run the model on concrete inputs.
\<close>

definition ascii_decode :: "bytes \<Rightarrow> ustring" where
  "ascii_decode b = map (\<lambda>c. if (of_char c :: nat) < 128 then of_char c else 65533) b"

definition ascii_lower :: "ustring \<Rightarrow> ustring" where
  "ascii_lower s = map (\<lambda>c. if 65 \<le> c \<and> c \<le> 90 then c + 32 else c) s"

definition ascii_digit :: "nat \<Rightarrow> bool" where
  "ascii_digit c = (48 \<le> c \<and> c \<le> 57)"

definition ascii_int :: "ustring \<Rightarrow> py_error + nat" where
  "ascii_int ds = Inr (foldl (\<lambda>acc d. 10 * acc + (d - 48)) 0 ds)"

definition ascii_message :: "bytes \<Rightarrow> email_message" where
  "ascii_message raw =
     \<lparr>hdr_subject = None, hdr_from = None, hdr_date = None,
      msg_root = Leaf (ustr ''text/plain'') None (Some raw)\<rparr>"

definition ascii_lib :: pylib where
  "ascii_lib =
     \<lparr>utf8_replace = ascii_decode,
      codec_replace = (\<lambda>enc b. Inr (ascii_decode b)),
      utf8_strict = (\<lambda>b. Inr (ascii_decode b)),
      str_lower = ascii_lower,
      re_digit = ascii_digit,
      int_of_digits = ascii_int,
      decode_header = (\<lambda>h. Inr [StrChunk h]),
      parsedate_strftime = (\<lambda>d. Inl (ValueError [])),
      parsebytes = (\<lambda>raw. Inr (ascii_message raw)),
      parse_stream = (\<lambda>raw. Inr (ascii_message raw))\<rparr>"

section \<open>Predicates on extracted content\<close>

text \<open>No two neighbouring characters are both whitespace.\<close>

fun no_ws_run :: "ustring \<Rightarrow> bool" where
  "no_ws_run (a # b # cs) = (\<not> (is_space a \<and> is_space b) \<and> no_ws_run (b # cs))"
| "no_ws_run [a] = True"
| "no_ws_run [] = True"

text \<open>No whitespace at either end.\<close>

definition trimmed :: "ustring \<Rightarrow> bool" where
  "trimmed s = (s = [] \<or> (\<not> is_space (hd s) \<and> \<not> is_space (last s)))"

text \<open>Whitespace-normalized: the only whitespace is single spaces between other text.\<close>

definition ws_normal :: "ustring \<Rightarrow> bool" where
  "ws_normal s = (list_all (\<lambda>c. \<not> is_space c \<or> c = 32) s \<and> no_ws_run s \<and> trimmed s)"


section \<open>Concrete inputs\<close>

text \<open>
  A mailbox of five messages whose bodies name their identifier, behind a server that
  accepts every command, and variants of it that reject one command.
\<close>

definition example_handle :: imap_handle where
  "example_handle =
     \<lparr>select_inbox = Inr (ustr ''OK''),
      search_all = Inr (ustr ''OK'', Some ''1 2 3 4 5''),
      fetch_rfc822 = (\<lambda>i. Inr (ustr ''OK'', Some (''body of '' @ i))),
      close_mailbox = Inr (),
      logout = Inr ()\<rparr>"


definition broken_handle :: imap_handle where
  "broken_handle = example_handle\<lparr>close_mailbox := Inl IMAPError\<rparr>"

definition example_connector :: "imap_handle option \<Rightarrow> connector" where
  "example_connector h =
     (new_connector GmailConnector (ustr ''me'') (ustr ''pw'') (ustr ''imap.gmail.com'') 993)
       \<lparr>imap := h\<rparr>"

text \<open>
  Messages: one whose only body is HTML, one with a plain-text and an HTML alternative,
  and one whose only plain-text part is an attachment.
\<close>

definition html_only_message :: message where
  "html_only_message =
     Multipart (ustr ''multipart/alternative'') None
       [Leaf (ustr ''text/html'') None (Some ''<b>hi</b>'')]"

definition both_message :: message where
  "both_message =
     Multipart (ustr ''multipart/alternative'') None
       [Leaf (ustr ''text/plain'') None (Some ''good  day''),
        Leaf (ustr ''text/html'') None (Some ''<b>hi</b>'')]"

definition attached_message :: message where
  "attached_message =
     Multipart (ustr ''multipart/mixed'') None
       [Leaf (ustr ''text/plain'') (Some (ustr ''attachment; filename=notes.txt'')) (Some ''notes''),
        Leaf (ustr ''text/html'') None (Some ''<b>hi</b>'')]"

section \<open>The buffers of \<open>_get_email_content\<close>, stated over the parts\<close>

text \<open>
  The parts the loop does not skip (in a message that is not multipart, the message
  itself, whose disposition is not looked at), the decoded payload a part contributes,
  and the concatenation of what the parts of one content type contribute.
\<close>

definition body_parts :: "message \<Rightarrow> message list" where
  "body_parts msg =
     (if is_multipart msg then filter (\<lambda>part. \<not> is_attachment part) (walk msg) else [msg])"

definition payload_text :: "pylib \<Rightarrow> message \<Rightarrow> ustring" where
  "payload_text L part =
     (case get_payload part of
        Some payload \<Rightarrow> if payload \<noteq> [] then utf8_replace L payload else []
      | None \<Rightarrow> [])"

definition text_of_type :: "pylib \<Rightarrow> ustring \<Rightarrow> message \<Rightarrow> ustring" where
  "text_of_type L ct msg =
     concat (map (payload_text L) (filter (\<lambda>part. get_content_type part = ct) (body_parts msg)))"

section \<open>Senders and exclusions, stated over the listing\<close>

text \<open>
  The decoded sender of the message behind an identifier, when the message is fetched
  with status \<open>OK\<close>, parsed, and its \<open>From\<close> header decoded; a sender is excluded when
  it contains some exclusion substring, both in lower case; an identifier is kept when
  its message has a decoded sender that is not excluded.
\<close>

definition decoded_sender :: "pylib \<Rightarrow> imap_handle \<Rightarrow> bytes \<Rightarrow> ustring option" where
  "decoded_sender L h email_id =
     (case fetch_rfc822 h email_id of
        Inl e \<Rightarrow> None
      | Inr (status, msg_data) \<Rightarrow>
          if status \<noteq> ustr ''OK'' then None
          else (case msg_data of
                  None \<Rightarrow> None
                | Some raw_email \<Rightarrow>
                    (case parse_raw L raw_email of
                       Inl e \<Rightarrow> None
                     | Inr msg \<Rightarrow>
                         (case decode_header_value L (hdr_from msg) of
                            Inl e \<Rightarrow> None
                          | Inr from_address \<Rightarrow> Some from_address))))"

definition sender_excluded :: "pylib \<Rightarrow> ustring list \<Rightarrow> ustring \<Rightarrow> bool" where
  "sender_excluded L exclusions sender =
     list_ex (\<lambda>s. str_contains (str_lower L s) (str_lower L sender)) exclusions"

definition sender_kept :: "pylib \<Rightarrow> imap_handle \<Rightarrow> ustring list \<Rightarrow> bytes \<Rightarrow> bool" where
  "sender_kept L h exclusions email_id =
     (case decoded_sender L h email_id of
        None \<Rightarrow> False
      | Some sender \<Rightarrow> \<not> sender_excluded L exclusions sender)"

section \<open>A mailbox of three messages\<close>

text \<open>
  A parser scripted by a table from raw bytes to parsed messages, and the mailbox of
  the spec's scenario: a plain-text job offer, an HTML-only rejection with an
  \<open>&nbsp;\<close> entity, and a newsletter.
\<close>

definition scripted_lib :: "(bytes \<times> email_message) list \<Rightarrow> pylib" where
  "scripted_lib table =
     ascii_lib\<lparr>parsebytes :=
       (\<lambda>raw. case map_of table raw of Some m \<Rightarrow> Inr m | None \<Rightarrow> Inr (ascii_message raw))\<rparr>"

definition offer_raw :: bytes where
  "offer_raw = ''From: hr@acme.com'' @ [CHR 0x0A, CHR 0x0A] @ ''We offer  you the job''"

definition offer_message :: email_message where
  "offer_message =
     \<lparr>hdr_subject = None, hdr_from = Some (ustr ''hr@acme.com''), hdr_date = None,
      msg_root = Leaf (ustr ''text/plain'') None (Some ''We offer  you the job'')\<rparr>"

definition regret_raw :: bytes where
  "regret_raw = ''From: jobs@corp.com'' @ [CHR 0x0A] @ ''Content-Type: text/html''
       @ [CHR 0x0A, CHR 0x0A] @ ''<p>We&nbsp;regret</p>''"

definition regret_message :: email_message where
  "regret_message =
     \<lparr>hdr_subject = None, hdr_from = Some (ustr ''jobs@corp.com''), hdr_date = None,
      msg_root = Leaf (ustr ''text/html'') None (Some ''<p>We&nbsp;regret</p>'')\<rparr>"

definition news_raw :: bytes where
  "news_raw = ''From: noreply@newsletter.com'' @ [CHR 0x0A, CHR 0x0A] @ ''News''"

definition news_message :: email_message where
  "news_message =
     \<lparr>hdr_subject = None, hdr_from = Some (ustr ''noreply@newsletter.com''), hdr_date = None,
      msg_root = Leaf (ustr ''text/plain'') None (Some ''News'')\<rparr>"

definition scenario_lib :: pylib where
  "scenario_lib =
     scripted_lib [(offer_raw, offer_message), (regret_raw, regret_message),
                   (news_raw, news_message)]"

definition scenario_handle :: imap_handle where
  "scenario_handle =
     \<lparr>select_inbox = Inr (ustr ''OK''),
      search_all = Inr (ustr ''OK'', Some ''1 2 3''),
      fetch_rfc822 =
        (\<lambda>i. Inr (ustr ''OK'', map_of [(''1'', offer_raw), (''2'', regret_raw), (''3'', news_raw)] i)),
      close_mailbox = Inr (),
      logout = Inr ()\<rparr>"

definition scenario_records :: "email_record list" where
  "scenario_records =
     [\<lparr>rec_id = ustr ''1'', rec_subject = [], rec_from = ustr ''hr@acme.com'', rec_date = [],
       rec_content = ustr ''We offer you the job''\<rparr>,
      \<lparr>rec_id = ustr ''2'', rec_subject = [], rec_from = ustr ''jobs@corp.com'', rec_date = [],
       rec_content = ustr ''We regret''\<rparr>]"








section \<open>Script and style blocks, stated over the first block\<close>

text \<open>
  The first block of a tag in a string: the first \<open><tag\<close>, the first \<open>>\<close> after it,
  and the first \<open></tag>\<close> after that; the result is where the block starts and where
  it ends, or nothing when one of the three is missing. Removing the blocks of a tag
  replaces the first block by a space and goes on after it.
\<close>

definition first_block_spec :: "ustring \<Rightarrow> ustring \<Rightarrow> (nat \<times> nat) option" where
  "first_block_spec tag s =
     (case str_find (ustr ''<'' @ tag) s of
        None \<Rightarrow> None
      | Some i \<Rightarrow>
          (case str_find (ustr ''>'') (drop (i + length tag + 1) s) of
             None \<Rightarrow> None
           | Some j \<Rightarrow>
               (case str_find (ustr ''</'' @ tag @ ustr ''>'') (drop (i + length tag + 1 + j + 1) s) of
                  None \<Rightarrow> None
                | Some k \<Rightarrow> Some (i, i + length tag + 1 + j + 1 + k + (length tag + 3)))))"

fun remove_blocks_spec :: "ustring \<Rightarrow> ustring \<Rightarrow> ustring" where
  "remove_blocks_spec tag [] = []"
| "remove_blocks_spec tag (c # cs) =
     (case first_block_spec tag (c # cs) of
        None \<Rightarrow> c # cs
      | Some (i, e) \<Rightarrow> take i (c # cs) @ ustr '' '' @ remove_blocks_spec tag (drop (e - 1) cs))"

section \<open>The tail limit of \<open>fetch_emails\<close>\<close>

lemma slice_from_last:
  "0 < k \<Longrightarrow> k \<le> int (length xs) \<Longrightarrow> slice_from (- k) xs = drop (length xs - nat k) xs"
  by (auto simp: slice_from_def Let_def max_def nat_diff_distrib')

lemma apply_limit_positive:
  "0 < k \<Longrightarrow> k \<le> int (length xs) \<Longrightarrow> apply_limit (Some k) xs = drop (length xs - nat k) xs"
  by (simp add: apply_limit_def slice_from_last)

lemma apply_limit_off:
  "k \<le> 0 \<Longrightarrow> apply_limit (Some k) xs = xs" "apply_limit None xs = xs"
  by (simp_all add: apply_limit_def)

lemma fetch_emails_connected:
  assumes "imap self = Some h" "select_inbox h = Inr (ustr ''OK'')"
    "search_all h = Inr (ustr ''OK'', Some listing)"
  shows "fetch_emails L self limit pto excl =
     fetch_loop L h pto (case excl of None \<Rightarrow> [] | Some xs \<Rightarrow> xs) []
       (apply_limit limit (bytes_split listing))"
  using assms by (simp add: fetch_emails_def)

lemma example_listing_split: "bytes_split ''1 2 3 4 5'' = [''1'', ''2'', ''3'', ''4'', ''5'']"
  by code_simp

text \<open>
  C6. On a connected session whose inbox is selected and listed, with \<open>ids\<close> the
  identifiers of the listing: for a positive limit \<open>k\<close> not above their number, the loop
  of \<open>fetch_emails\<close> runs over exactly the last \<open>k\<close> identifiers, a suffix of the listing
  and so in their original order; for a limit that is absent, zero or negative it runs
  over all of them.
\<close>

theorem fetch_emails_limit:
  assumes "imap self = Some h" "select_inbox h = Inr (ustr ''OK'')"
    "search_all h = Inr (ustr ''OK'', Some listing)"
    "ids = bytes_split listing" "ex = (case excl of None \<Rightarrow> [] | Some xs \<Rightarrow> xs)"
  shows "(0 < k \<and> k \<le> int (length ids) \<longrightarrow>
            fetch_emails L self (Some k) pto excl
              = fetch_loop L h pto ex [] (drop (length ids - nat k) ids)
            \<and> length (drop (length ids - nat k) ids) = nat k
            \<and> suffix (drop (length ids - nat k) ids) ids)
       \<and> (k \<le> 0 \<longrightarrow> fetch_emails L self (Some k) pto excl = fetch_loop L h pto ex [] ids)
       \<and> fetch_emails L self None pto excl = fetch_loop L h pto ex [] ids"
  using assms
  by (auto simp: fetch_emails_connected apply_limit_positive apply_limit_off suffix_drop)

theorem fetch_emails_limit_witness:
  "fetch_emails ascii_lib (example_connector (Some example_handle)) (Some 1) False None
     = fetch_loop ascii_lib example_handle False [] [] [''5'']
   \<and> fetch_emails ascii_lib (example_connector (Some example_handle)) (Some 0) False None
     = fetch_loop ascii_lib example_handle False [] [] [''1'', ''2'', ''3'', ''4'', ''5'']"
proof -
  have h1: "imap (example_connector (Some example_handle)) = Some example_handle"
    by (simp add: example_connector_def new_connector_def)
  have h2: "select_inbox example_handle = Inr (ustr ''OK'')"
    and h3: "search_all example_handle = Inr (ustr ''OK'', Some ''1 2 3 4 5'')"
    by (simp_all add: example_handle_def)
  have h4: "(case None :: ustring list option of None \<Rightarrow> [] | Some xs \<Rightarrow> xs) = []"
    by simp
  note t = fetch_emails_limit [OF h1 h2 h3 example_listing_split [symmetric] h4 [symmetric]]
  show ?thesis
    using t [where k = 1 and L = ascii_lib and pto = False]
      t [where k = 0 and L = ascii_lib and pto = False]
    by (simp del: fetch_loop.simps)
qed

section \<open>A rejected inbox selection\<close>




section \<open>\<open>disconnect\<close>\<close>

text \<open>
  C9. \<open>disconnect\<close> never raises: without an IMAP handle it sends nothing; when
  \<open>close\<close> raises, or \<open>close\<close> succeeds and \<open>logout\<close> raises, the exception is swallowed
  and \<open>disconnect\<close> returns.
\<close>

theorem disconnect_never_raises:
  "(\<forall>e. disconnect self \<noteq> Inl e)
   \<and> (imap self = None \<longrightarrow> disconnect self = Inr [])
   \<and> (\<forall>h e. imap self = Some h \<and> close_mailbox h = Inl e \<longrightarrow> disconnect self = Inr [])
   \<and> (\<forall>h e. imap self = Some h \<and> close_mailbox h = Inr () \<and> logout h = Inl e
          \<longrightarrow> disconnect self = Inr [Close])"
  by (auto simp: disconnect_def split: option.splits sum.splits)

theorem disconnect_never_raises_witness:
  "disconnect (example_connector None) = Inr []
   \<and> disconnect (example_connector (Some broken_handle)) = Inr []
   \<and> disconnect (example_connector (Some example_handle)) \<noteq> Inl IMAPError"
  using disconnect_never_raises [of "example_connector None"]
    disconnect_never_raises [of "example_connector (Some broken_handle)"]
    disconnect_never_raises [of "example_connector (Some example_handle)"]
  by (simp add: example_connector_def broken_handle_def example_handle_def new_connector_def)

section \<open>\<open>create_connector\<close>\<close>

text \<open>
  C10. \<open>create_connector\<close> depends on the provider name only through its lower-case
  form: two names with the same lower-case form give the same result; a name whose
  lower-case form is \<open>gmail\<close>, \<open>outlook\<close>, \<open>yahoo\<close>, \<open>aol\<close> or \<open>zoho\<close> gives the connector of
  that provider with its host and port 993; every other name raises \<open>ValueError\<close>.
\<close>

theorem create_connector_resolves:
  "(str_lower L p = str_lower L q \<longrightarrow> create_connector L p u w = create_connector L q u w)
   \<and> (str_lower L p = ustr ''gmail'' \<longrightarrow>
        create_connector L p u w
          = Inr (new_connector GmailConnector u w (ustr ''imap.gmail.com'') 993))
   \<and> (str_lower L p = ustr ''outlook'' \<longrightarrow>
        create_connector L p u w
          = Inr (new_connector OutlookConnector u w (ustr ''outlook.office365.com'') 993))
   \<and> (str_lower L p = ustr ''yahoo'' \<longrightarrow>
        create_connector L p u w
          = Inr (new_connector YahooMailConnector u w (ustr ''imap.mail.yahoo.com'') 993))
   \<and> (str_lower L p = ustr ''aol'' \<longrightarrow>
        create_connector L p u w
          = Inr (new_connector AOLMailConnector u w (ustr ''imap.aol.com'') 993))
   \<and> (str_lower L p = ustr ''zoho'' \<longrightarrow>
        create_connector L p u w
          = Inr (new_connector ZohoMailConnector u w (ustr ''imap.zoho.com'') 993))
   \<and> (str_lower L p \<notin> {ustr ''gmail'', ustr ''outlook'', ustr ''yahoo'', ustr ''aol'', ustr ''zoho''}
        \<longrightarrow> create_connector L p u w
          = Inl (ValueError (ustr ''Unsupported email provider: '' @ str_lower L p)))"
  by (simp add: create_connector_def Let_def ustr_def)

theorem create_connector_resolves_witness:
  "create_connector ascii_lib (ustr ''GMail'') (ustr ''me'') (ustr ''pw'')
     = create_connector ascii_lib (ustr ''gmail'') (ustr ''me'') (ustr ''pw'')
   \<and> create_connector ascii_lib (ustr ''GMail'') (ustr ''me'') (ustr ''pw'')
     = Inr (new_connector GmailConnector (ustr ''me'') (ustr ''pw'') (ustr ''imap.gmail.com'') 993)
   \<and> create_connector ascii_lib (ustr ''Proton'') (ustr ''me'') (ustr ''pw'')
     = Inl (ValueError (ustr ''Unsupported email provider: proton''))"
proof -
  have a: "str_lower ascii_lib (ustr ''GMail'') = ustr ''gmail''"
    and b: "str_lower ascii_lib (ustr ''gmail'') = ustr ''gmail''"
    and c: "str_lower ascii_lib (ustr ''Proton'') = ustr ''proton''"
    by (simp_all add: ascii_lib_def ascii_lower_def ustr_def)
  have d: "ustr ''proton'' \<notin> {ustr ''gmail'', ustr ''outlook'', ustr ''yahoo'', ustr ''aol'', ustr ''zoho''}"
    by (simp add: ustr_def)
  note g = create_connector_resolves
      [of ascii_lib "ustr ''GMail''" "ustr ''gmail''" "ustr ''me''" "ustr ''pw''"]
  note h = create_connector_resolves
      [of ascii_lib "ustr ''Proton''" "ustr ''gmail''" "ustr ''me''" "ustr ''pw''"]
  have 1: "create_connector ascii_lib (ustr ''GMail'') (ustr ''me'') (ustr ''pw'')
     = create_connector ascii_lib (ustr ''gmail'') (ustr ''me'') (ustr ''pw'')"
    using g a b by presburger
  have 2: "create_connector ascii_lib (ustr ''GMail'') (ustr ''me'') (ustr ''pw'')
     = Inr (new_connector GmailConnector (ustr ''me'') (ustr ''pw'') (ustr ''imap.gmail.com'') 993)"
    using g a by presburger
  have 3: "create_connector ascii_lib (ustr ''Proton'') (ustr ''me'') (ustr ''pw'')
     = Inl (ValueError (ustr ''Unsupported email provider: '' @ ustr ''proton''))"
    using h c d by presburger
  have 4: "ustr ''Unsupported email provider: '' @ ustr ''proton''
     = ustr ''Unsupported email provider: proton''"
    by (simp add: ustr_def)
  show ?thesis using 1 2 3 4 by presburger
qed

section \<open>Whitespace normalization\<close>

lemma is_space_32: "is_space 32" by (simp add: is_space_def)
lemma is_space_10: "is_space 10" by (simp add: is_space_def)

lemma ustr_space: "ustr '' '' = [32]" by (simp add: ustr_def)

lemma collapse_ws_Cons:
  "collapse_ws (c # cs) =
     (if is_space c then 32 # collapse_ws (dropWhile is_space cs) else c # collapse_ws cs)"
  by (simp add: collapse_ws_def match_spaces_def match_run_def ustr_space dropWhile_eq_drop)

lemma collapse_ws_Nil: "collapse_ws [] = []"
  by (simp add: collapse_ws_def)

lemma no_ws_run_nonspace: "\<not> is_space c \<Longrightarrow> no_ws_run (c # t) = no_ws_run t"
  by (cases t) simp_all

lemma collapse_ws_hd: "s \<noteq> [] \<Longrightarrow> \<not> is_space (hd s) \<Longrightarrow> hd (collapse_ws s) = hd s \<and> collapse_ws s \<noteq> []"
  by (cases s) (simp_all add: collapse_ws_Cons)

lemma no_ws_run_collapse: "no_ws_run (collapse_ws s)"
proof (induction s rule: length_induct)
  case (1 s)
  show ?case
  proof (cases s)
    case Nil
    then show ?thesis by (simp add: collapse_ws_Nil)
  next
    case (Cons c cs)
    show ?thesis
    proof (cases "is_space c")
      case False
      have "no_ws_run (collapse_ws cs)" using 1 Cons by simp
      then show ?thesis using False Cons by (simp add: collapse_ws_Cons no_ws_run_nonspace)
    next
      case True
      let ?r = "dropWhile is_space cs"
      have len: "length ?r < length s" using Cons
        by (simp add: length_dropWhile_le le_imp_less_Suc)
      have ih: "no_ws_run (collapse_ws ?r)" using 1 len by blast
      have "no_ws_run (32 # collapse_ws ?r)"
      proof (cases ?r)
        case Nil
        show ?thesis unfolding Nil by (simp add: collapse_ws_Nil)
      next
        case (Cons d ds)
        then have "\<not> is_space d" using hd_dropWhile [of is_space cs] by auto
        then show ?thesis using ih unfolding Cons by (simp add: collapse_ws_Cons)
      qed
      then show ?thesis using True Cons by (simp add: collapse_ws_Cons)
    qed
  qed
qed

lemma spaces_collapse: "list_all (\<lambda>c. \<not> is_space c \<or> c = 32) (collapse_ws s)"
proof (induction s rule: length_induct)
  case (1 s)
  show ?case
  proof (cases s)
    case Nil
    then show ?thesis by (simp add: collapse_ws_Nil)
  next
    case (Cons c cs)
    have a: "list_all (\<lambda>c. \<not> is_space c \<or> c = 32) (collapse_ws cs)" using 1 Cons by simp
    have "length (dropWhile is_space cs) < length s" using Cons
      by (simp add: length_dropWhile_le le_imp_less_Suc)
    then have b: "list_all (\<lambda>c. \<not> is_space c \<or> c = 32) (collapse_ws (dropWhile is_space cs))"
      using 1 by blast
    show ?thesis using a b Cons by (simp add: collapse_ws_Cons)
  qed
qed

lemma collapse_ws_fixed:
  "list_all (\<lambda>c. \<not> is_space c \<or> c = 32) s \<Longrightarrow> no_ws_run s \<Longrightarrow> collapse_ws s = s"
proof (induction s rule: no_ws_run.induct)
  case (1 a b cs)
  then show ?case by (auto simp: collapse_ws_Cons)
next
  case (2 a)
  then show ?case by (auto simp: collapse_ws_Cons collapse_ws_Nil)
next
  case 3
  then show ?case by (simp add: collapse_ws_Nil)
qed


lemma no_ws_run_append: "no_ws_run (a @ b) \<Longrightarrow> no_ws_run a \<and> no_ws_run b"
proof (induction a rule: no_ws_run.induct)
  case (1 x y cs)
  then show ?case by simp
next
  case (2 a)
  then show ?case by (cases b) simp_all
next
  case 3
  then show ?case by simp
qed

lemma strip_back: "s = rev (dropWhile is_space (rev s)) @ rev (takeWhile is_space (rev s))"
proof -
  have "rev (dropWhile is_space (rev s)) @ rev (takeWhile is_space (rev s))
      = rev (takeWhile is_space (rev s) @ dropWhile is_space (rev s))"
    by (simp only: rev_append)
  also have "\<dots> = s"
    by (simp only: takeWhile_dropWhile_id rev_rev_ident)
  finally show ?thesis by simp
qed

lemma str_strip_decomp: "\<exists>a b. s = a @ str_strip s @ b"
proof -
  let ?v = "dropWhile is_space s"
  have 1: "s = takeWhile is_space s @ ?v" by simp
  have 2: "?v = str_strip s @ rev (takeWhile is_space (rev ?v))"
    unfolding str_strip_def by (rule strip_back)
  show ?thesis using 1 2 by (metis append.assoc)
qed

lemma trimmed_strip: "trimmed (str_strip s)"
proof -
  let ?v = "dropWhile is_space s"
  let ?w = "dropWhile is_space (rev ?v)"
  show ?thesis
  proof (cases "?w = []")
    case True
    then show ?thesis by (simp add: trimmed_def str_strip_def)
  next
    case False
    then have l: "\<not> is_space (hd ?w)" by (rule hd_dropWhile)
    have ne: "?v \<noteq> []"
    proof
      assume e: "?v = []"
      have "?w = []" unfolding e by simp
      with False show False by contradiction
    qed
    then have h: "\<not> is_space (hd ?v)" by (rule hd_dropWhile)
    have "?v = rev ?w @ rev (takeWhile is_space (rev ?v))" by (rule strip_back)
    then have "hd ?v = hd (rev ?w)" using False by (metis hd_append2 rev_is_Nil_conv)
    then have "\<not> is_space (hd (rev ?w))" using h by simp
    moreover have "last (rev ?w) = hd ?w" using False by (simp add: last_rev)
    ultimately show ?thesis using l by (simp add: trimmed_def str_strip_def)
  qed
qed

lemma str_strip_fixed: "trimmed s \<Longrightarrow> str_strip s = s"
proof (cases "s = []")
  case True
  then show ?thesis by (simp add: str_strip_def)
next
  case False
  assume "trimmed s"
  then have h: "\<not> is_space (hd s)" and l: "\<not> is_space (last s)"
    using False by (simp_all add: trimmed_def)
  have 1: "dropWhile is_space s = s" using h by (simp add: dropWhile_eq_self_iff)
  have "hd (rev s) = last s" using False by (simp add: hd_rev)
  then have 2: "dropWhile is_space (rev s) = rev s" using l by (simp add: dropWhile_eq_self_iff)
  show ?thesis by (simp add: str_strip_def 1 2)
qed

lemma ws_normal_strip_collapse: "ws_normal (str_strip (collapse_ws s))"
proof -
  obtain a b where d: "collapse_ws s = a @ str_strip (collapse_ws s) @ b"
    using str_strip_decomp by blast
  have "no_ws_run (a @ str_strip (collapse_ws s) @ b)"
    using no_ws_run_collapse [of s] d by simp
  then have 1: "no_ws_run (str_strip (collapse_ws s))"
    using no_ws_run_append by blast
  have "list_all (\<lambda>c. \<not> is_space c \<or> c = 32) (a @ str_strip (collapse_ws s) @ b)"
    using spaces_collapse [of s] d by simp
  then have 2: "list_all (\<lambda>c. \<not> is_space c \<or> c = 32) (str_strip (collapse_ws s))"
    by simp
  show ?thesis using 1 2 trimmed_strip by (simp add: ws_normal_def)
qed

lemma newlines_fixed:
  "list_all (\<lambda>c. \<not> is_space c \<or> c = 32) s \<Longrightarrow> re_sub match_newlines [10] s = s"
  by (induction s) (auto simp: match_newlines_def match_run_def is_space_10)

lemma ws_normal_fixed:
  assumes "ws_normal s"
  shows "str_strip (collapse_ws s) = s" "clean_whitespace s = s"
proof -
  show 1: "str_strip (collapse_ws s) = s"
    using assms by (simp add: ws_normal_def collapse_ws_fixed str_strip_fixed)
  have "re_sub match_newlines [10] s = s" using assms by (simp add: ws_normal_def newlines_fixed)
  then show "clean_whitespace s = s" using 1 by (simp add: clean_whitespace_def collapse_ws_def)
qed

lemma ws_normal_clean: "ws_normal (clean_whitespace s)"
  using ws_normal_strip_collapse [of "re_sub match_newlines [10] s"]
  by (simp add: clean_whitespace_def collapse_ws_def)

section \<open>\<open>_html_to_text\<close> on text without markup\<close>

lemma re_sub_absent:
  assumes "\<And>c t. c \<noteq> a \<Longrightarrow> m (c # t) = None" "a \<notin> set s"
  shows "re_sub m r s = s"
  using assms(2) by (induction s) (simp_all add: assms(1))

lemma re_sub_fn_absent:
  assumes "\<And>c t. c \<noteq> a \<Longrightarrow> m (c # t) = None" "a \<notin> set s"
  shows "re_sub_fn m f s = Inr s"
  using assms(2) by (induction s) (simp_all add: assms(1))

lemma match_block_head: "c \<noteq> 60 \<Longrightarrow> match_block tag (c # t) = None"
  by (simp add: match_block_def ustr_def)

lemma match_open_block_head: "c \<noteq> 60 \<Longrightarrow> match_open_block L (c # t) = None"
  by (simp add: match_open_block_def ustr_def)

lemma match_tag_head: "c \<noteq> 60 \<Longrightarrow> match_tag (c # t) = None"
  by (simp add: match_tag_def ustr_def)

lemma match_numeric_head: "c \<noteq> 38 \<Longrightarrow> match_numeric L (c # t) = None"
  by (simp add: match_numeric_def ustr_def)

lemma match_literal_head: "c \<noteq> a \<Longrightarrow> match_literal (a # old) (c # t) = None"
  by (simp add: match_literal_def)

lemma str_replace_absent: "a \<notin> set s \<Longrightarrow> str_replace (a # old) new s = s"
  unfolding str_replace_def by (rule re_sub_absent [where a = a]) (simp_all add: match_literal_head)

lemma replace_entities_absent: "38 \<notin> set s \<Longrightarrow> replace_entities s = s"
  by (simp add: replace_entities_def entities_def ustr_def str_replace_absent)

lemma remove_scripts_styles_absent: "60 \<notin> set s \<Longrightarrow> remove_scripts_styles s = s"
  by (simp add: remove_scripts_styles_def re_sub_absent [where a = 60] match_block_head)

lemma html_to_text_plain:
  assumes "60 \<notin> set s" "38 \<notin> set s"
  shows "html_to_text L s = Inr (clean_whitespace s)"
proof -
  have 1: "remove_scripts_styles s = s" using assms(1) by (rule remove_scripts_styles_absent)
  have 2: "re_sub (match_open_block L) [10] s = s"
    using assms(1) by (simp add: re_sub_absent [where a = 60] match_open_block_head)
  have 3: "replace_entities s = s" using assms(2) by (rule replace_entities_absent)
  have 4: "re_sub_fn (match_numeric L) (chr_of_group L) s = Inr s"
    using assms(2) by (simp add: re_sub_fn_absent [where a = 38] match_numeric_head)
  have 5: "re_sub match_tag [] s = s"
    using assms(1) by (simp add: re_sub_absent [where a = 60] match_tag_head)
  show ?thesis by (simp add: html_to_text_def 1 2 3 4 5)
qed

lemma set_re_sub: "set (re_sub m r s) \<subseteq> set s \<union> set r"
proof (induction m r s rule: re_sub.induct)
  case (1 m repl)
  then show ?case by simp
next
  case (2 m repl c cs)
  show ?case
  proof (cases "m (c # cs)")
    case None
    then show ?thesis using 2(1) by auto
  next
    case (Some n)
    have "set (drop (n - 1) cs) \<subseteq> set cs" by (rule set_drop_subset)
    then show ?thesis using 2(2) [OF Some] Some by auto
  qed
qed

lemma set_str_strip: "set (str_strip s) \<subseteq> set s"
proof -
  obtain a b where "s = a @ str_strip s @ b" using str_strip_decomp by blast
  then have "set s = set a \<union> set (str_strip s) \<union> set b" by (metis set_append sup_assoc)
  then show ?thesis by blast
qed

lemma set_clean_whitespace: "set (clean_whitespace s) \<subseteq> set s \<union> {10, 32}"
proof -
  have "set (clean_whitespace s) \<subseteq> set (collapse_ws (re_sub match_newlines [10] s))"
    unfolding clean_whitespace_def by (rule set_str_strip)
  also have "\<dots> \<subseteq> set (re_sub match_newlines [10] s) \<union> {32}"
    unfolding collapse_ws_def ustr_space using set_re_sub [of match_spaces "[32]"] by simp
  also have "\<dots> \<subseteq> set s \<union> {10, 32}"
    using set_re_sub [of match_newlines "[10]" s] by auto
  finally show ?thesis .
qed


lemma clean_whitespace_example:
  "clean_whitespace (ustr ''  hello   world '') = ustr ''hello world''"
  by (simp add: clean_whitespace_def collapse_ws_def str_strip_def match_newlines_def
      match_spaces_def match_run_def is_space_def ustr_def)

text \<open>
  C8. On a string with no \<open><\<close> and no \<open>&\<close>, \<open>_html_to_text\<close> returns, its result is
  the whitespace clean-up of the string, and applying it to that result gives the
  result back.
\<close>

theorem html_to_text_idempotent:
  assumes "60 \<notin> set s" "38 \<notin> set s"
  shows "html_to_text L s = Inr (clean_whitespace s)
       \<and> html_to_text L (clean_whitespace s) = Inr (clean_whitespace s)"
proof -
  let ?t = "clean_whitespace s"
  have a: "60 \<notin> set ?t" "38 \<notin> set ?t" using assms set_clean_whitespace [of s] by auto
  have "html_to_text L ?t = Inr (clean_whitespace ?t)" using a by (rule html_to_text_plain)
  moreover have "clean_whitespace ?t = ?t" using ws_normal_clean by (rule ws_normal_fixed(2))
  ultimately show ?thesis using html_to_text_plain [OF assms] by simp
qed

theorem html_to_text_idempotent_witness:
  "html_to_text ascii_lib (ustr ''  hello   world '') = Inr (ustr ''hello world'')
   \<and> html_to_text ascii_lib (ustr ''hello world'') = Inr (ustr ''hello world'')"
proof -
  have "60 \<notin> set (ustr ''  hello   world '')" "38 \<notin> set (ustr ''  hello   world '')"
    by (simp_all add: ustr_def)
  from html_to_text_idempotent [OF this, of ascii_lib] show ?thesis
    by (simp only: clean_whitespace_example)
qed

section \<open>The buffers of \<open>_get_email_content\<close>\<close>

lemma plain_not_html: "ustr ''text/plain'' \<noteq> ustr ''text/html''"
  by (simp add: ustr_def)

lemma accumulate_part_eq:
  "accumulate_part L (a, b) part =
     (if is_attachment part then (a, b)
      else if get_content_type part = ustr ''text/plain'' then (a @ payload_text L part, b)
      else if get_content_type part = ustr ''text/html'' then (a, b @ payload_text L part)
      else (a, b))"
  by (simp add: accumulate_part_def payload_text_def split: option.splits)

lemma foldl_accumulate:
  "foldl (accumulate_part L) (a, b) parts =
     (a @ concat (map (payload_text L)
            (filter (\<lambda>part. get_content_type part = ustr ''text/plain'')
               (filter (\<lambda>part. \<not> is_attachment part) parts))),
      b @ concat (map (payload_text L)
            (filter (\<lambda>part. get_content_type part = ustr ''text/html'')
               (filter (\<lambda>part. \<not> is_attachment part) parts))))"
proof (induction parts arbitrary: a b)
  case Nil
  then show ?case by simp
next
  case (Cons part parts)
  show ?case
    by (simp only: foldl_Cons accumulate_part_eq Cons.IH split: if_splits)
       (simp add: plain_not_html plain_not_html [symmetric])
qed

lemma collect_buffers_spec:
  "collect_buffers L msg = (text_of_type L (ustr ''text/plain'') msg, text_of_type L (ustr ''text/html'') msg)"
proof (cases "is_multipart msg")
  case True
  then show ?thesis
    by (simp add: collect_buffers_def text_of_type_def body_parts_def foldl_accumulate)
next
  case False
  then show ?thesis
    by (auto simp: collect_buffers_def text_of_type_def body_parts_def single_part_def
        payload_text_def plain_not_html split: option.splits)
qed

lemma text_of_type_nonempty:
  assumes "\<And>b. b \<noteq> [] \<Longrightarrow> utf8_replace L b \<noteq> []"
    "part \<in> set (body_parts msg)" "get_content_type part = ct"
    "get_payload part = Some p" "p \<noteq> []"
  shows "text_of_type L ct msg \<noteq> []"
proof -
  have "payload_text L part \<noteq> []" using assms(1,4,5) by (simp add: payload_text_def)
  moreover have "part \<in> set (filter (\<lambda>part. get_content_type part = ct) (body_parts msg))"
    using assms(2,3) by simp
  ultimately show ?thesis unfolding text_of_type_def by (auto simp del: set_filter)
qed


lemmas matcher_defs = match_block_def match_open_block_def match_alt_def match_tag_def
  match_run_def match_newlines_def match_spaces_def match_numeric_def match_literal_def

lemmas html_defs = html_to_text_def remove_scripts_styles_def replace_entities_def entities_def
  str_replace_def clean_whitespace_def collapse_ws_def str_strip_def chr_of_group_def

lemma html_to_text_bold: "html_to_text ascii_lib (ustr ''<b>hi</b>'') = Inr (ustr ''hi'')"
  by (simp add: html_defs matcher_defs ustr_def is_space_def Let_def)

lemma normalize_hi: "str_strip (collapse_ws (ustr ''hi'')) = ustr ''hi''"
  by (simp add: collapse_ws_def str_strip_def match_spaces_def match_run_def is_space_def ustr_def)

lemma normalize_good_day: "str_strip (collapse_ws (ustr ''good  day'')) = ustr ''good day''"
  by (simp add: collapse_ws_def str_strip_def match_spaces_def match_run_def is_space_def ustr_def)

lemma ascii_decode_nonempty: "\<forall>b. b \<noteq> [] \<longrightarrow> utf8_replace ascii_lib b \<noteq> []"
  by (simp add: ascii_lib_def ascii_decode_def)

lemma bold_nonempty: "ustr ''<b>hi</b>'' \<noteq> []"
  by (simp add: ustr_def)

lemma collect_html_only: "collect_buffers ascii_lib html_only_message = ([], ustr ''<b>hi</b>'')"
  by (simp add: collect_buffers_def html_only_message_def accumulate_part_def is_attachment_def
      str_contains_def ustr_def ascii_lib_def ascii_decode_def)

lemma collect_attached: "collect_buffers ascii_lib attached_message = ([], ustr ''<b>hi</b>'')"
  by (simp add: collect_buffers_def attached_message_def accumulate_part_def is_attachment_def
      str_contains_def ustr_def ascii_lib_def ascii_decode_def)


text \<open>
  C1 fails on the code: \<open>_get_email_content\<close> never reads \<open>plain_text_only\<close>. With
  the flag set, a multipart message whose only body is HTML still gives the text
  converted from that HTML.
\<close>

lemma flag_ignored: "get_email_content L msg True = get_email_content L msg False"
  by (simp add: get_email_content_def)

theorem plain_text_only_ignored:
  "get_email_content ascii_lib html_only_message True = Inr (ustr ''hi'')"
  by (simp add: get_email_content_def collect_html_only html_to_text_bold normalize_hi bold_nonempty)


text \<open>
  C5, as the spec states it, fails: a multipart message whose only plain-text part is
  an attachment has a non-empty \<open>text/plain\<close> part, and the result is the converted HTML.
\<close>

theorem plain_attachment_counterexample:
  "Leaf (ustr ''text/plain'') (Some (ustr ''attachment; filename=notes.txt'')) (Some ''notes'')
     \<in> set (walk attached_message)
   \<and> get_email_content ascii_lib attached_message False = Inr (ustr ''hi'')"
  by (simp add: get_email_content_def collect_attached html_to_text_bold normalize_hi bold_nonempty)
     (simp add: attached_message_def)


text \<open>
  C5, amended. Provided decoding a non-empty payload gives a non-empty text: when some
  part that the loop does not skip as an attachment (in a message that is not
  multipart, the message itself) has type \<open>text/plain\<close> and a non-empty payload, the
  result is the whitespace-normalized concatenation of the decoded plain-text payloads,
  whatever HTML parts there are; and the HTML buffer decides the result only when the
  plain-text buffer is empty.
\<close>

theorem plain_text_preferred:
  assumes "\<forall>b. b \<noteq> [] \<longrightarrow> utf8_replace L b \<noteq> []"
  shows "((\<exists>part \<in> set (body_parts msg). get_content_type part = ustr ''text/plain''
              \<and> (\<exists>p. get_payload part = Some p \<and> p \<noteq> []))
          \<longrightarrow> get_email_content L msg pto
                = Inr (str_strip (collapse_ws (text_of_type L (ustr ''text/plain'') msg))))
       \<and> (text_of_type L (ustr ''text/plain'') msg = [] \<longrightarrow>
            get_email_content L msg pto =
              (if text_of_type L (ustr ''text/html'') msg \<noteq> [] then
                 (case html_to_text L (text_of_type L (ustr ''text/html'') msg) of
                    Inl e \<Rightarrow> Inl e
                  | Inr content \<Rightarrow> Inr (str_strip (collapse_ws content)))
               else Inr []))"
proof (intro conjI impI)
  assume "\<exists>part \<in> set (body_parts msg). get_content_type part = ustr ''text/plain''
              \<and> (\<exists>p. get_payload part = Some p \<and> p \<noteq> [])"
  then have "text_of_type L (ustr ''text/plain'') msg \<noteq> []"
    using text_of_type_nonempty [of L] assms by blast
  then show "get_email_content L msg pto
                = Inr (str_strip (collapse_ws (text_of_type L (ustr ''text/plain'') msg)))"
    by (simp add: get_email_content_def collect_buffers_spec)
next
  assume "text_of_type L (ustr ''text/plain'') msg = []"
  then show "get_email_content L msg pto =
              (if text_of_type L (ustr ''text/html'') msg \<noteq> [] then
                 (case html_to_text L (text_of_type L (ustr ''text/html'') msg) of
                    Inl e \<Rightarrow> Inl e
                  | Inr content \<Rightarrow> Inr (str_strip (collapse_ws content)))
               else Inr [])"
    by (simp add: get_email_content_def collect_buffers_spec collapse_ws_Nil str_strip_def)
qed


lemma both_parts:
  "body_parts both_message =
     [both_message, Leaf (ustr ''text/plain'') None (Some ''good  day''),
      Leaf (ustr ''text/html'') None (Some ''<b>hi</b>'')]"
  by (simp add: body_parts_def both_message_def is_attachment_def str_contains_def ustr_def)

lemma both_text: "text_of_type ascii_lib (ustr ''text/plain'') both_message = ustr ''good  day''"
  by (simp add: text_of_type_def both_parts)
     (simp add: both_message_def payload_text_def ustr_def ascii_lib_def ascii_decode_def)


theorem plain_text_preferred_witness:
  "get_email_content ascii_lib both_message False = Inr (ustr ''good day'')"
proof -
  have "\<exists>part \<in> set (body_parts both_message). get_content_type part = ustr ''text/plain''
              \<and> (\<exists>p. get_payload part = Some p \<and> p \<noteq> [])"
    by (simp add: both_parts)
  then show ?thesis
    using plain_text_preferred [OF ascii_decode_nonempty, of both_message False]
    by (simp only: both_text normalize_good_day)
qed

section \<open>The loop of \<open>fetch_emails\<close>\<close>

lemma should_exclude_iff: "should_exclude L ex sender = sender_excluded L ex sender"
  by (induction ex) (simp_all add: sender_excluded_def)

lemma process_message_Some:
  assumes "process_message L h pto ex i = Inr (Some r)"
  shows "decoded_sender L h i = Some (rec_from r) \<and> \<not> sender_excluded L ex (rec_from r)
       \<and> utf8_strict L i = Inr (rec_id r)
       \<and> (\<exists>raw msg c0. fetch_rfc822 h i = Inr (ustr ''OK'', Some raw) \<and> parse_raw L raw = Inr msg
            \<and> get_email_content L (msg_root msg) pto = Inr c0
            \<and> rec_content r = (if c0 = [] then fallback_content L (msg_root msg) else c0))"
proof -
  obtain status msg_data where f: "fetch_rfc822 h i = Inr (status, msg_data)"
    using assms by (cases "fetch_rfc822 h i") (auto simp: process_message_def)
  have st: "status = ustr ''OK''"
    using assms f by (cases "status = ustr ''OK''") (simp_all add: process_message_def)
  obtain raw where d: "msg_data = Some raw"
    using assms f st by (cases msg_data) (simp_all add: process_message_def)
  obtain msg where p: "parse_raw L raw = Inr msg"
    using assms f st d by (cases "parse_raw L raw") (simp_all add: process_message_def)
  obtain subject where s: "decode_header_value L (hdr_subject msg) = Inr subject"
    using assms f st d p
    by (cases "decode_header_value L (hdr_subject msg)") (simp_all add: process_message_def)
  obtain from_address where fr: "decode_header_value L (hdr_from msg) = Inr from_address"
    using assms f st d p s
    by (cases "decode_header_value L (hdr_from msg)") (simp_all add: process_message_def)
  have x: "\<not> should_exclude L ex from_address"
    using assms f st d p s fr
    by (cases "should_exclude L ex from_address") (simp_all add: process_message_def)
  obtain c0 where c: "get_email_content L (msg_root msg) pto = Inr c0"
    using assms f st d p s fr x
    by (cases "get_email_content L (msg_root msg) pto") (simp_all add: process_message_def)
  obtain id_str where u: "utf8_strict L i = Inr id_str"
    using assms f st d p s fr x c
    by (cases "utf8_strict L i") (simp_all add: process_message_def Let_def)
  have r: "r = \<lparr>rec_id = id_str, rec_subject = subject, rec_from = from_address,
                 rec_date = parse_date L (hdr_date msg),
                 rec_content = (if c0 = [] then fallback_content L (msg_root msg) else c0)\<rparr>"
    using assms f st d p s fr x c u by (simp add: process_message_def Let_def)
  have ds: "decoded_sender L h i = Some from_address"
    using f st d p fr by (simp add: decoded_sender_def)
  show ?thesis using r ds x u f st d p c by (simp add: should_exclude_iff)
qed

lemma process_message_None:
  assumes "process_message L h pto ex i = Inr None"
  shows "\<not> sender_kept L h ex i"
proof (cases "decoded_sender L h i")
  case None
  then show ?thesis by (simp add: sender_kept_def)
next
  case (Some sender)
  obtain status msg_data where f: "fetch_rfc822 h i = Inr (status, msg_data)"
    using Some by (cases "fetch_rfc822 h i") (auto simp: decoded_sender_def)
  have st: "status = ustr ''OK''"
    using Some f by (cases "status = ustr ''OK''") (simp_all add: decoded_sender_def)
  obtain raw where d: "msg_data = Some raw"
    using Some f st by (cases msg_data) (simp_all add: decoded_sender_def)
  obtain msg where p: "parse_raw L raw = Inr msg"
    using Some f st d by (cases "parse_raw L raw") (simp_all add: decoded_sender_def)
  have fr: "decode_header_value L (hdr_from msg) = Inr sender"
    using Some f st d p
    by (cases "decode_header_value L (hdr_from msg)") (simp_all add: decoded_sender_def)
  obtain subject where s: "decode_header_value L (hdr_subject msg) = Inr subject"
    using assms f st d p
    by (cases "decode_header_value L (hdr_subject msg)") (simp_all add: process_message_def)
  have "should_exclude L ex sender"
  proof (rule ccontr)
    assume x: "\<not> should_exclude L ex sender"
    show False
    proof (cases "get_email_content L (msg_root msg) pto")
      case (Inl e)
      then show False using assms f st d p s fr x by (simp add: process_message_def)
    next
      case (Inr c0)
      then show False using assms f st d p s fr x
        by (cases "utf8_strict L i") (simp_all add: process_message_def Let_def)
    qed
  qed
  then show ?thesis using Some by (simp add: sender_kept_def should_exclude_iff)
qed

lemma process_message_kept:
  assumes "process_message L h pto ex i = Inr (Some r)"
  shows "sender_kept L h ex i"
  using process_message_Some [OF assms] by (simp add: sender_kept_def)

lemma fetch_loop_records:
  "fetch_loop L h pto ex acc ids = Inr recs \<Longrightarrow>
     \<exists>new. recs = acc @ new
        \<and> list_all2 (\<lambda>i r. process_message L h pto ex i = Inr (Some r))
             (filter (sender_kept L h ex) ids) new"
proof (induction ids arbitrary: acc)
  case Nil
  then show ?case by simp
next
  case (Cons i ids)
  show ?case
  proof (cases "process_message L h pto ex i")
    case (Inl e)
    then show ?thesis using Cons.prems by simp
  next
    case (Inr res)
    show ?thesis
    proof (cases res)
      case None
      then have "fetch_loop L h pto ex acc ids = Inr recs" using Cons.prems Inr by simp
      from Cons.IH [OF this] obtain new where
        n: "recs = acc @ new" "list_all2 (\<lambda>i r. process_message L h pto ex i = Inr (Some r))
             (filter (sender_kept L h ex) ids) new" by blast
      have "\<not> sender_kept L h ex i" using Inr None process_message_None by blast
      then show ?thesis using n by simp
    next
      case (Some r)
      then have "fetch_loop L h pto ex (acc @ [r]) ids = Inr recs" using Cons.prems Inr by simp
      from Cons.IH [OF this] obtain new where
        n: "recs = (acc @ [r]) @ new" "list_all2 (\<lambda>i r. process_message L h pto ex i = Inr (Some r))
             (filter (sender_kept L h ex) ids) new" by blast
      have "sender_kept L h ex i" using Inr Some process_message_kept by blast
      then have "list_all2 (\<lambda>i r. process_message L h pto ex i = Inr (Some r))
             (filter (sender_kept L h ex) (i # ids)) (r # new)"
        using n(2) Inr Some by simp
      moreover have "recs = acc @ (r # new)" using n(1) by simp
      ultimately show ?thesis by blast
    qed
  qed
qed

lemma fetch_loop_member:
  assumes "fetch_loop L h pto ex [] ids = Inr recs" "r \<in> set recs"
  shows "\<exists>i \<in> set ids. process_message L h pto ex i = Inr (Some r)"
proof -
  from fetch_loop_records [OF assms(1)]
  have l: "list_all2 (\<lambda>i r. process_message L h pto ex i = Inr (Some r))
             (filter (sender_kept L h ex) ids) recs" by simp
  from assms(2) obtain n where n: "n < length recs" "recs ! n = r"
    by (auto simp: in_set_conv_nth)
  have len: "length (filter (sender_kept L h ex) ids) = length recs"
    using l by (rule list_all2_lengthD)
  have "process_message L h pto ex (filter (sender_kept L h ex) ids ! n) = Inr (Some r)"
    using list_all2_nthD2 [OF l n(1)] n(2) by simp
  moreover have "filter (sender_kept L h ex) ids ! n \<in> set ids"
    using n(1) len by (metis filter_is_subset nth_mem subsetD)
  ultimately show ?thesis by blast
qed


text \<open>
  C4. When \<open>fetch_emails\<close> returns on a connected session with the inbox selected and
  listed: no returned record has a sender that contains an exclusion substring
  (compared in lower case), and the records correspond one to one, in order, to the
  processed identifiers whose message was fetched and parsed with a sender that is not
  excluded, each record carrying that identifier and that sender. So a message with an
  excluded sender has no record, and every other fetched message has one.
\<close>

theorem excluded_senders_absent:
  assumes "imap self = Some h" "select_inbox h = Inr (ustr ''OK'')"
    "search_all h = Inr (ustr ''OK'', Some listing)"
    "fetch_emails L self limit pto excl = Inr recs"
    "ex = (case excl of None \<Rightarrow> [] | Some xs \<Rightarrow> xs)"
    "ids = apply_limit limit (bytes_split listing)"
  shows "(\<forall>r \<in> set recs. \<not> sender_excluded L ex (rec_from r))
       \<and> list_all2 (\<lambda>i r. decoded_sender L h i = Some (rec_from r)
                          \<and> utf8_strict L i = Inr (rec_id r))
            (filter (sender_kept L h ex) ids) recs"
proof -
  have loop: "fetch_loop L h pto ex [] ids = Inr recs"
    using assms by (simp add: fetch_emails_connected)
  have 1: "\<forall>r \<in> set recs. \<not> sender_excluded L ex (rec_from r)"
    using fetch_loop_member [OF loop] process_message_Some by blast
  from fetch_loop_records [OF loop]
  have "list_all2 (\<lambda>i r. process_message L h pto ex i = Inr (Some r))
             (filter (sender_kept L h ex) ids) recs" by simp
  then have 2: "list_all2 (\<lambda>i r. decoded_sender L h i = Some (rec_from r)
                          \<and> utf8_strict L i = Inr (rec_id r))
            (filter (sender_kept L h ex) ids) recs"
    by (rule list_all2_mono) (simp add: process_message_Some)
  show ?thesis using 1 2 by simp
qed

lemma scenario_lib_fields:
  "utf8_replace scenario_lib = ascii_decode" "utf8_strict scenario_lib = (\<lambda>b. Inr (ascii_decode b))"
  "str_lower scenario_lib = ascii_lower" "decode_header scenario_lib = (\<lambda>h. Inr [StrChunk h])"
  "parsedate_strftime scenario_lib = (\<lambda>d. Inl (ValueError []))"
  "re_digit scenario_lib = ascii_digit" "int_of_digits scenario_lib = ascii_int"
  by (simp_all add: scenario_lib_def scripted_lib_def ascii_lib_def)

lemma scenario_parse:
  "parse_raw scenario_lib offer_raw = Inr offer_message"
  "parse_raw scenario_lib regret_raw = Inr regret_message"
  "parse_raw scenario_lib news_raw = Inr news_message"
  by (simp_all add: parse_raw_def scenario_lib_def scripted_lib_def ascii_lib_def
      offer_raw_def regret_raw_def news_raw_def)

lemma scenario_fetch:
  "fetch_rfc822 scenario_handle ''1'' = Inr (ustr ''OK'', Some offer_raw)"
  "fetch_rfc822 scenario_handle ''2'' = Inr (ustr ''OK'', Some regret_raw)"
  "fetch_rfc822 scenario_handle ''3'' = Inr (ustr ''OK'', Some news_raw)"
  by (simp_all add: scenario_handle_def)

lemma scenario_senders:
  "decode_header_value scenario_lib (hdr_from offer_message) = Inr (ustr ''hr@acme.com'')"
  "decode_header_value scenario_lib (hdr_from regret_message) = Inr (ustr ''jobs@corp.com'')"
  "decode_header_value scenario_lib (hdr_from news_message) = Inr (ustr ''noreply@newsletter.com'')"
  "decode_header_value scenario_lib None = Inr []"
  by (simp_all add: decode_header_value_def scenario_lib_fields offer_message_def
      regret_message_def news_message_def ustr_def)

lemma scenario_exclusions:
  "\<not> should_exclude scenario_lib [ustr ''NewsLetter''] (ustr ''hr@acme.com'')"
  "\<not> should_exclude scenario_lib [ustr ''NewsLetter''] (ustr ''jobs@corp.com'')"
  "should_exclude scenario_lib [ustr ''NewsLetter''] (ustr ''noreply@newsletter.com'')"
  by (simp_all add: scenario_lib_fields ascii_lower_def str_contains_def ustr_def)

lemma scenario_html: "html_to_text scenario_lib (ustr ''<p>We&nbsp;regret</p>'') = Inr (ustr ''We regret'')"
  by (simp add: html_defs matcher_defs ustr_def is_space_def Let_def scenario_lib_fields ascii_digit_def)

lemma scenario_contents:
  "get_email_content scenario_lib (msg_root offer_message) False = Inr (ustr ''We offer you the job'')"
  "get_email_content scenario_lib (msg_root regret_message) False = Inr (ustr ''We regret'')"
proof -
  have n: "str_strip (collapse_ws (ustr ''We offer  you the job'')) = ustr ''We offer you the job''"
    "str_strip (collapse_ws (ustr ''We regret'')) = ustr ''We regret''"
    by (simp_all add: collapse_ws_def str_strip_def match_spaces_def match_run_def is_space_def ustr_def)
  have b: "collect_buffers scenario_lib (msg_root offer_message) = (ustr ''We offer  you the job'', [])"
    "collect_buffers scenario_lib (msg_root regret_message) = ([], ustr ''<p>We&nbsp;regret</p>'')"
    by (simp_all add: collect_buffers_def single_part_def offer_message_def regret_message_def
        scenario_lib_fields ascii_decode_def ustr_def)
  have ne: "ustr ''We offer  you the job'' \<noteq> []" "ustr ''<p>We&nbsp;regret</p>'' \<noteq> []"
    by (simp_all add: ustr_def)
  show "get_email_content scenario_lib (msg_root offer_message) False = Inr (ustr ''We offer you the job'')"
    by (simp add: get_email_content_def b ne n)
  show "get_email_content scenario_lib (msg_root regret_message) False = Inr (ustr ''We regret'')"
    by (simp add: get_email_content_def b ne n scenario_html)
qed

lemma scenario_ids:
  "utf8_strict scenario_lib ''1'' = Inr (ustr ''1'')" "utf8_strict scenario_lib ''2'' = Inr (ustr ''2'')"
  by (simp_all add: scenario_lib_fields ascii_decode_def ustr_def)

lemma scenario_nonempty: "ustr ''We offer you the job'' \<noteq> []" "ustr ''We regret'' \<noteq> []"
  by (simp_all add: ustr_def)

lemma scenario_dates:
  "parse_date scenario_lib (hdr_date offer_message) = []"
  "parse_date scenario_lib (hdr_date regret_message) = []"
  "hdr_subject offer_message = None" "hdr_subject regret_message = None"
  "hdr_subject news_message = None"
  by (simp_all add: parse_date_def offer_message_def regret_message_def news_message_def)

lemma scenario_process:
  "process_message scenario_lib scenario_handle False [ustr ''NewsLetter''] ''1''
     = Inr (Some (scenario_records ! 0))"
  "process_message scenario_lib scenario_handle False [ustr ''NewsLetter''] ''2''
     = Inr (Some (scenario_records ! 1))"
  "process_message scenario_lib scenario_handle False [ustr ''NewsLetter''] ''3'' = Inr None"
  by (simp_all add: process_message_def scenario_fetch scenario_parse scenario_senders
      scenario_exclusions scenario_contents scenario_ids scenario_nonempty scenario_dates
      scenario_records_def Let_def del: should_exclude.simps)

lemma scenario_split: "bytes_split ''1 2 3'' = [''1'', ''2'', ''3'']"
  by code_simp

lemma scenario_connected:
  "imap (example_connector (Some scenario_handle)) = Some scenario_handle"
  "select_inbox scenario_handle = Inr (ustr ''OK'')"
  "search_all scenario_handle = Inr (ustr ''OK'', Some ''1 2 3'')"
  by (simp_all add: example_connector_def new_connector_def scenario_handle_def)

lemma scenario_loop:
  "fetch_loop scenario_lib scenario_handle False [ustr ''NewsLetter''] [] [''1'', ''2'', ''3'']
      = Inr scenario_records"
  by (simp add: scenario_process) (simp add: scenario_records_def)

lemma scenario_fetch_emails:
  "fetch_emails scenario_lib (example_connector (Some scenario_handle)) None False
     (Some [ustr ''NewsLetter'']) = Inr scenario_records"
proof -
  have "fetch_emails scenario_lib (example_connector (Some scenario_handle)) None False
          (Some [ustr ''NewsLetter''])
      = fetch_loop scenario_lib scenario_handle False
          (case Some [ustr ''NewsLetter''] of None \<Rightarrow> [] | Some xs \<Rightarrow> xs) []
          (apply_limit None (bytes_split ''1 2 3''))"
    by (rule fetch_emails_connected [OF scenario_connected])
  also have "\<dots> = fetch_loop scenario_lib scenario_handle False [ustr ''NewsLetter''] []
          [''1'', ''2'', ''3'']"
    by (simp only: apply_limit_off scenario_split option.case)
  also have "\<dots> = Inr scenario_records"
    by (rule scenario_loop)
  finally show ?thesis .
qed


theorem excluded_senders_absent_witness:
  "list_all (\<lambda>r. \<not> sender_excluded scenario_lib [ustr ''NewsLetter''] (rec_from r))
     scenario_records
   \<and> list_all2 (\<lambda>i r. decoded_sender scenario_lib scenario_handle i = Some (rec_from r)
                      \<and> utf8_strict scenario_lib i = Inr (rec_id r))
        (filter (sender_kept scenario_lib scenario_handle [ustr ''NewsLetter''])
           (apply_limit None (bytes_split ''1 2 3''))) scenario_records"
proof -
  have e: "[ustr ''NewsLetter''] = (case Some [ustr ''NewsLetter''] of None \<Rightarrow> [] | Some xs \<Rightarrow> xs)"
    by simp
  from excluded_senders_absent [OF scenario_connected scenario_fetch_emails e refl]
  show ?thesis unfolding list_all_iff by blast
qed

section \<open>Tags and whitespace in the extracted content\<close>

lemma str_find_char_None: "(str_find [x] s = None) = (x \<notin> set s)"
  by (induction s) auto









































section \<open>Removal of script and style blocks\<close>

lemma prefix_straddle:
  assumes "prefix p (u @ r)" "u \<noteq> []"
  shows "prefix p u \<or> (r \<noteq> [] \<and> hd r \<in> set (tl p))"
proof -
  from assms(1) have "prefix p u \<or> (\<exists>w. p = u @ w \<and> prefix w r)"
    by (simp add: prefix_append)
  then show ?thesis
  proof
    assume "prefix p u"
    then show ?thesis by simp
  next
    assume "\<exists>w. p = u @ w \<and> prefix w r"
    then obtain w where w: "p = u @ w" "prefix w r" by blast
    show ?thesis
    proof (cases "w = []")
      case True
      then show ?thesis using w by simp
    next
      case False
      then have r: "r \<noteq> []" using w(2) by auto
      have "hd r = hd w" using w(2) False by (auto simp: prefix_def)
      moreover have "hd w \<in> set w" using False by simp
      moreover have "set w \<subseteq> set (tl p)" using w(1) assms(2) by (cases u) auto
      ultimately show ?thesis using r by auto
    qed
  qed
qed

lemma not_contains_suffix: "\<not> str_contains p (v @ u) \<Longrightarrow> \<not> prefix p u"
proof (induction v)
  case Nil
  then show ?case by (cases u) (auto simp: str_contains_def split: if_splits)
next
  case (Cons x v)
  then show ?case by (auto simp: str_contains_def split: if_splits)
qed

lemma str_find_append:
  assumes "pat \<noteq> []" "hd pat \<notin> set (tl pat)"
  shows "\<not> str_contains pat b \<Longrightarrow> str_find pat (b @ pat @ c) = Some (length b)"
proof (induction b)
  case Nil
  then show ?case using assms(1) by (cases pat) simp_all
next
  case (Cons x b)
  have np: "\<not> prefix pat (x # b)" using Cons.prems not_contains_suffix [of pat "[]" "x # b"] by simp
  have nc: "\<not> str_contains pat b" using Cons.prems not_contains_suffix [of pat "[x]" b]
    by (auto simp: str_contains_def split: if_splits)
  have "\<not> prefix pat ((x # b) @ pat @ c)"
  proof
    assume "prefix pat ((x # b) @ pat @ c)"
    from prefix_straddle [OF this] np have "hd (pat @ c) \<in> set (tl pat)" by simp
    then show False using assms by simp
  qed
  then show ?case using Cons.IH [OF nc] by simp
qed

lemma re_sub_skip:
  "(\<And>u v. a = v @ u \<Longrightarrow> u \<noteq> [] \<Longrightarrow> m (u @ r) = None)
     \<Longrightarrow> re_sub m rep (a @ r) = a @ re_sub m rep r"
proof (induction a)
  case Nil
  then show ?case by simp
next
  case (Cons x a)
  have 1: "m ((x # a) @ r) = None" using Cons.prems [of "[]" "x # a"] by simp
  have "\<And>u v. a = v @ u \<Longrightarrow> u \<noteq> [] \<Longrightarrow> m (u @ r) = None"
  proof -
    fix u v assume "a = v @ u" "u \<noteq> []"
    then show "m (u @ r) = None" using Cons.prems [of "x # v" u] by simp
  qed
  then have "re_sub m rep (a @ r) = a @ re_sub m rep r" by (rule Cons.IH)
  then show ?case using 1 by simp
qed

lemma match_block_None: "\<not> prefix (60 # tag) s \<Longrightarrow> match_block tag s = None"
  by (simp add: match_block_def ustr_def)

lemma re_sub_block_skip:
  assumes "\<not> str_contains (60 # tag) a" "r = [] \<or> hd r \<notin> set tag"
  shows "re_sub (match_block tag) rep (a @ r) = a @ re_sub (match_block tag) rep r"
proof (rule re_sub_skip)
  fix u v assume a: "a = v @ u" and u: "u \<noteq> []"
  have "\<not> prefix (60 # tag) (u @ r)"
  proof
    assume "prefix (60 # tag) (u @ r)"
    from prefix_straddle [OF this u]
    have "prefix (60 # tag) u \<or> (r \<noteq> [] \<and> hd r \<in> set tag)" by simp
    moreover have "\<not> prefix (60 # tag) u" using assms(1) a not_contains_suffix by blast
    ultimately show False using assms(2) by blast
  qed
  then show "match_block tag (u @ r) = None" by (rule match_block_None)
qed

lemma str_find_gt: "62 \<notin> set attrs \<Longrightarrow> str_find [62] (attrs @ 62 # rest) = Some (length attrs)"
  by (induction attrs) auto

lemma match_block_at:
  assumes "62 \<notin> set attrs" "\<not> str_contains (60 # 47 # tag @ [62]) b" "60 \<notin> set tag"
  shows "match_block tag ((60 # tag) @ attrs @ [62] @ b @ (60 # 47 # tag @ [62]) @ c)
       = Some (length (60 # tag) + length attrs + 1 + length b + length (60 # 47 # tag @ [62]))"
proof -
  let ?cls = "60 # 47 # tag @ [62]"
  have 1: "str_find [62] (attrs @ 62 # b @ ?cls @ c) = Some (length attrs)"
    using assms(1) by (rule str_find_gt)
  have 2: "str_find ?cls (b @ ?cls @ c) = Some (length b)"
    by (rule str_find_append) (use assms in auto)
  show ?thesis
    using 1 2 by (simp add: match_block_def ustr_def Let_def)
qed

lemma re_sub_block_removed:
  assumes "\<not> str_contains (60 # tag) a" "62 \<notin> set attrs"
    "\<not> str_contains (60 # 47 # tag @ [62]) b" "60 \<notin> set tag"
  shows "re_sub (match_block tag) rep (a @ (60 # tag) @ attrs @ [62] @ b @ (60 # 47 # tag @ [62]) @ c)
       = a @ rep @ re_sub (match_block tag) rep c"
proof -
  let ?blk = "(60 # tag) @ attrs @ [62] @ b @ (60 # 47 # tag @ [62]) @ c"
  have "re_sub (match_block tag) rep (a @ ?blk) = a @ re_sub (match_block tag) rep ?blk"
    by (rule re_sub_block_skip) (use assms in auto)
  moreover have "re_sub (match_block tag) rep ?blk = rep @ re_sub (match_block tag) rep c"
  proof -
    let ?n = "length tag + length attrs + 1 + length b + (length tag + 3)"
    have m: "match_block tag (60 # tag @ attrs @ 62 # b @ 60 # 47 # tag @ 62 # c) = Some (Suc ?n)"
      using match_block_at [OF assms(2,3,4), of c] by simp
    let ?p = "tag @ attrs @ 62 # b @ 60 # 47 # tag @ [62]"
    have l: "length ?p = ?n" by simp
    have "drop (length ?p) (?p @ c) = c" by (rule append_eq_conv_conj [THEN iffD1, THEN conjunct2, symmetric]) (rule refl)
    then have "drop ?n (?p @ c) = c" by (simp only: l)
    then have d: "drop ?n (tag @ attrs @ 62 # b @ 60 # 47 # tag @ 62 # c) = c"
      by (simp only: append_assoc append_Cons append_Nil)
    have "re_sub (match_block tag) rep (60 # tag @ attrs @ 62 # b @ 60 # 47 # tag @ 62 # c)
        = rep @ re_sub (match_block tag) rep (drop (Suc ?n - 1) (tag @ attrs @ 62 # b @ 60 # 47 # tag @ 62 # c))"
      by (simp only: re_sub.simps m option.case)
    then show ?thesis using d by simp
  qed
  ultimately show ?thesis by simp
qed

lemma re_sub_block_space:
  assumes "\<not> str_contains (60 # tag) a" "32 \<notin> set tag"
  shows "re_sub (match_block tag) rep (a @ 32 # c) = a @ 32 # re_sub (match_block tag) rep c"
proof -
  have "re_sub (match_block tag) rep (a @ 32 # c) = a @ re_sub (match_block tag) rep (32 # c)"
    by (rule re_sub_block_skip) (use assms in auto)
  then show ?thesis by (simp add: match_block_head)
qed

lemma ustr_tags:
  "ustr ''<script'' = 60 # ustr ''script''" "ustr ''</script>'' = 60 # 47 # ustr ''script'' @ [62]"
  "ustr ''<style'' = 60 # ustr ''style''" "ustr ''</style>'' = 60 # 47 # ustr ''style'' @ [62]"
  "ustr ''>'' = [62]"
  by (simp_all add: ustr_def)

lemma tag_chars:
  "60 \<notin> set (ustr ''script'')" "32 \<notin> set (ustr ''script'')" "62 \<notin> set (ustr ''script'')"
  "60 \<notin> set (ustr ''style'')" "32 \<notin> set (ustr ''style'')"
  by (simp_all add: ustr_def)

lemma script_pass_block:
  assumes "\<not> str_contains (ustr ''<script'') a" "62 \<notin> set attrs"
    "\<not> str_contains (ustr ''</script>'') b"
  shows "re_sub (match_block (ustr ''script'')) rep
           (a @ ustr ''<script'' @ attrs @ ustr ''>'' @ b @ ustr ''</script>'' @ c)
       = a @ rep @ re_sub (match_block (ustr ''script'')) rep c"
  using re_sub_block_removed [of "ustr ''script''" a attrs b rep c] assms
  by (simp add: ustr_tags tag_chars)

lemma style_pass_block:
  assumes "\<not> str_contains (ustr ''<style'') a" "62 \<notin> set attrs"
    "\<not> str_contains (ustr ''</style>'') b"
  shows "re_sub (match_block (ustr ''style'')) rep
           (a @ ustr ''<style'' @ attrs @ ustr ''>'' @ b @ ustr ''</style>'' @ c)
       = a @ rep @ re_sub (match_block (ustr ''style'')) rep c"
  using re_sub_block_removed [of "ustr ''style''" a attrs b rep c] assms
  by (simp add: ustr_tags tag_chars)

lemma script_pass_space:
  assumes "\<not> str_contains (ustr ''<script'') a"
  shows "re_sub (match_block (ustr ''script'')) rep (a @ ustr '' '' @ c)
       = a @ ustr '' '' @ re_sub (match_block (ustr ''script'')) rep c"
  using re_sub_block_space [of "ustr ''script''" a rep c] assms
  by (simp add: ustr_tags tag_chars ustr_space)

lemma style_pass_space:
  assumes "\<not> str_contains (ustr ''<style'') a"
  shows "re_sub (match_block (ustr ''style'')) rep (a @ ustr '' '' @ c)
       = a @ ustr '' '' @ re_sub (match_block (ustr ''style'')) rep c"
  using re_sub_block_space [of "ustr ''style''" a rep c] assms
  by (simp add: ustr_tags tag_chars ustr_space)

lemma script_pass_style_open:
  "re_sub (match_block (ustr ''script'')) rep (ustr ''<style'' @ r)
     = ustr ''<style'' @ re_sub (match_block (ustr ''script'')) rep r"
  by (simp add: ustr_def match_block_def)

lemma script_pass_style_close:
  "re_sub (match_block (ustr ''script'')) rep (ustr ''</style>'' @ r)
     = ustr ''</style>'' @ re_sub (match_block (ustr ''script'')) rep r"
  by (simp add: ustr_def match_block_def)

lemma script_pass_style_block:
  assumes "\<not> str_contains (ustr ''<script'') a" "\<not> str_contains (ustr ''<script'') attrs"
    "\<not> str_contains (ustr ''<script'') b"
  shows "re_sub (match_block (ustr ''script'')) rep
           (a @ ustr ''<style'' @ attrs @ ustr ''>'' @ b @ ustr ''</style>'' @ c)
       = a @ ustr ''<style'' @ attrs @ ustr ''>'' @ b @ ustr ''</style>''
           @ re_sub (match_block (ustr ''script'')) rep c"
proof -
  let ?f = "re_sub (match_block (ustr ''script'')) rep"
  have 1: "?f (a @ ustr ''<style'' @ attrs @ ustr ''>'' @ b @ ustr ''</style>'' @ c)
      = a @ ?f (ustr ''<style'' @ attrs @ ustr ''>'' @ b @ ustr ''</style>'' @ c)"
    using re_sub_block_skip [of "ustr ''script''" a
        "ustr ''<style'' @ attrs @ ustr ''>'' @ b @ ustr ''</style>'' @ c" rep] assms(1)
    by (simp add: ustr_tags tag_chars)
  have 2: "?f (attrs @ ustr ''>'' @ b @ ustr ''</style>'' @ c)
      = attrs @ ?f (ustr ''>'' @ b @ ustr ''</style>'' @ c)"
    using re_sub_block_skip [of "ustr ''script''" attrs
        "ustr ''>'' @ b @ ustr ''</style>'' @ c" rep] assms(2)
    by (simp add: ustr_tags tag_chars)
  have 3: "?f (ustr ''>'' @ b @ ustr ''</style>'' @ c) = ustr ''>'' @ ?f (b @ ustr ''</style>'' @ c)"
    by (simp add: ustr_tags match_block_head)
  have 4: "?f (b @ ustr ''</style>'' @ c) = b @ ?f (ustr ''</style>'' @ c)"
    using re_sub_block_skip [of "ustr ''script''" b "ustr ''</style>'' @ c" rep] assms(3)
    by (simp add: ustr_tags tag_chars)
  show ?thesis
    by (simp only: 1 script_pass_style_open 2 3 4 script_pass_style_close)
qed

lemma html_to_text_cong:
  "remove_scripts_styles s = remove_scripts_styles t \<Longrightarrow> html_to_text L s = html_to_text L t"
  by (simp add: html_to_text_def)


lemma str_find_nth: "str_find [x] t = Some j \<Longrightarrow> j < length t \<and> t ! j = x"
  by (induction t arbitrary: j) (auto split: if_splits)

lemma str_find_min: "str_find [x] t = Some j \<Longrightarrow> q < length t \<Longrightarrow> t ! q = x \<Longrightarrow> j \<le> q"
proof (induction t arbitrary: j q)
  case Nil
  then show ?case by simp
next
  case (Cons c t)
  show ?case
  proof (cases "x = c")
    case True
    then show ?thesis using Cons.prems by simp
  next
    case False
    then obtain j' where j: "j = Suc j'" "str_find [x] t = Some j'"
      using Cons.prems(1) by auto
    obtain q' where q: "q = Suc q'" using Cons.prems(2,3) False by (cases q) auto
    then have "j' \<le> q'" using Cons.IH [OF j(2), of q'] Cons.prems(2,3) by simp
    then show ?thesis using j q by simp
  qed
qed

lemma str_contains_drop: "str_contains p (drop m s) \<Longrightarrow> str_contains p s"
proof -
  have "\<And>w v. str_contains p v \<Longrightarrow> str_contains p (w @ v)"
  proof -
    fix w v show "str_contains p v \<Longrightarrow> str_contains p (w @ v)"
      by (induction w) (auto simp: str_contains_def)
  qed
  then have "str_contains p (drop m s) \<Longrightarrow> str_contains p (take m s @ drop m s)" by blast
  then show "str_contains p (drop m s) \<Longrightarrow> str_contains p s" by simp
qed

lemma first_block_at_head:
  assumes "prefix (60 # tag) s"
  shows "first_block_spec tag s = map_option (\<lambda>n. (0, n)) (match_block tag s)"
proof -
  have "s \<noteq> []" using assms by auto
  then have "str_find (60 # tag) s = Some 0" using assms by (cases s) simp_all
  then show ?thesis using assms
    by (simp add: first_block_spec_def match_block_def ustr_def Let_def split: option.splits)
qed

lemma first_block_shift:
  assumes "\<not> prefix (60 # tag) (c # cs)"
  shows "first_block_spec tag (c # cs)
       = map_option (\<lambda>(i, e). (Suc i, Suc e)) (first_block_spec tag cs)"
  using assms by (simp add: first_block_spec_def ustr_def split: option.splits)

lemma first_block_after_failed_head:
  assumes "prefix (60 # tag) (c # cs)" "match_block tag (c # cs) = None"
  shows "first_block_spec tag cs = None"
proof (rule ccontr)
  let ?cls = "60 # 47 # tag @ [62]"
  define lo where "lo = length tag + 1"
  define t where "t = drop lo (c # cs)"
  assume "first_block_spec tag cs \<noteq> None"
  then obtain i j k where i: "str_find (60 # tag) cs = Some i"
    and j: "str_find [62] (drop (i + lo) cs) = Some j"
    and k: "str_find ?cls (drop (i + lo + j + 1) cs) = Some k"
    by (auto simp: first_block_spec_def ustr_def lo_def split: option.splits)
  have dj: "drop (i + lo) cs = drop (Suc i) t"
    by (simp add: t_def lo_def add.commute)
  from str_find_nth [OF j] have j1: "j < length (drop (Suc i) t)" and j2: "drop (Suc i) t ! j = 62"
    by (simp_all only: dj)
  have q1: "Suc i + j < length t" using j1 by simp
  have q2: "t ! (Suc i + j) = 62" using j2 q1 by (simp only: nth_drop) 
  show False
  proof (cases "str_find [62] t")
    case None
    then have "62 \<notin> set t" by (simp add: str_find_char_None)
    then show False using q1 q2 by (metis nth_mem)
  next
    case (Some j0)
    then have "str_find ?cls (drop (lo + j0 + 1) (c # cs)) = None"
      using assms by (simp add: match_block_def ustr_def Let_def t_def lo_def split: option.splits)
    then have nc: "\<not> str_contains ?cls (drop (lo + j0 + 1) (c # cs))"
      by (simp add: str_contains_def)
    have le: "j0 \<le> Suc i + j" using str_find_min [OF Some q1 q2] .
    have "drop (i + lo + j + 1) cs = drop (Suc i + j - j0) (drop (lo + j0 + 1) (c # cs))"
      using le by (simp add: ac_simps)
    then have "str_contains ?cls (drop (Suc i + j - j0) (drop (lo + j0 + 1) (c # cs)))"
      using k by (simp add: str_contains_def)
    then show False using nc str_contains_drop by blast
  qed
qed

lemma match_block_pos: "match_block tag s = Some n \<Longrightarrow> 0 < n"
  by (auto simp: match_block_def Let_def split: if_splits option.splits)

lemma block_pass_first:
  "re_sub (match_block tag) rep s =
     (case first_block_spec tag s of
        None \<Rightarrow> s
      | Some (i, e) \<Rightarrow> take i s @ rep @ re_sub (match_block tag) rep (drop e s))"
proof (induction s)
  case Nil
  then show ?case by (simp add: first_block_spec_def ustr_def)
next
  case (Cons c cs)
  show ?case
  proof (cases "prefix (60 # tag) (c # cs)")
    case False
    then have m: "match_block tag (c # cs) = None" by (simp add: match_block_None)
    show ?thesis
      using Cons.IH by (simp add: m first_block_shift [OF False] split: option.splits)
  next
    case True
    show ?thesis
    proof (cases "match_block tag (c # cs)")
      case None
      have "first_block_spec tag cs = None" using True None by (rule first_block_after_failed_head)
      then have "re_sub (match_block tag) rep cs = cs" using Cons.IH by simp
      then show ?thesis using None by (simp add: first_block_at_head [OF True])
    next
      case (Some n)
      then obtain n' where n: "n = Suc n'" using match_block_pos [OF Some] by (cases n) auto
      show ?thesis using Some n by (simp add: first_block_at_head [OF True])
    qed
  qed
qed

lemma block_pass_spec: "re_sub (match_block tag) (ustr '' '') s = remove_blocks_spec tag s"
proof (induction s rule: length_induct)
  case (1 s)
  show ?case
  proof (cases s)
    case Nil
    then show ?thesis by simp
  next
    case (Cons c cs)
    show ?thesis
    proof (cases "first_block_spec tag (c # cs)")
      case None
      then show ?thesis using Cons block_pass_first [of tag "ustr '' ''" "c # cs"] by simp
    next
      case (Some p)
      obtain i e where p: "p = (i, e)" by (cases p)
      have e: "0 < e" using Some p by (auto simp: first_block_spec_def split: option.splits)
      then have d: "drop e (c # cs) = drop (e - 1) cs" by (cases e) simp_all
      have "length (drop (e - 1) cs) < length s" using Cons by simp
      then have "re_sub (match_block tag) (ustr '' '') (drop (e - 1) cs)
          = remove_blocks_spec tag (drop (e - 1) cs)" using 1 by blast
      then show ?thesis
        using Cons Some p d block_pass_first [of tag "ustr '' ''" "c # cs"] by simp
    qed
  qed
qed

lemma remove_scripts_styles_spec:
  "remove_scripts_styles s
     = remove_blocks_spec (ustr ''style'') (remove_blocks_spec (ustr ''script'') s)"
  by (simp add: remove_scripts_styles_def block_pass_spec)

text \<open>
  C7, as the spec states it, fails. The patterns are compiled with \<open>re.DOTALL\<close> only, so
  a block whose tag name is in upper case is not matched: its tags go with the other
  tags and its content stays in the text, while the same block in lower case
  disappears. And the script step runs first, from the left, so an unclosed
  \<open><script\<close> inside a lower-case style block takes the closing tag of the style block
  away with it, and the content of the style block stays.
\<close>

theorem uppercase_script_counterexample:
  "html_to_text ascii_lib (ustr ''<SCRIPT>x</SCRIPT>'') = Inr (ustr ''x'')
   \<and> html_to_text ascii_lib (ustr ''<script>x</script>'') = Inr []
   \<and> html_to_text ascii_lib (ustr ''<style>x<script</style>y</script>z'') = Inr (ustr ''x z'')"
  by (simp add: html_defs matcher_defs ustr_def is_space_def Let_def)


text \<open>
  C7, amended. For every input string the two steps that come first are a script step
  and, on its result, a style step, and the result of \<open>_html_to_text\<close> depends on the
  input only through what these two steps give. A step matches its tag name in lower
  case only and works from the left: when there is no \<open><script\<close>, or the first one has
  no \<open>>\<close> after it, or no \<open></script>\<close> follows the first such \<open>>\<close>, the string is
  left as it is; otherwise the text from the first \<open><script\<close> through the first
  \<open>>\<close> after it and through the first \<open></script>\<close> after that, newlines and markup
  included, is replaced by one space, and the step goes on with the rest. So a
  lower-case script block with no \<open><script\<close> before it is removed with its content,
  and so is a lower-case style block with no \<open><style\<close> before it and no \<open><script\<close>
  before or inside it.
\<close>

theorem script_style_blocks_removed:
  "remove_scripts_styles s
     = remove_blocks_spec (ustr ''style'') (remove_blocks_spec (ustr ''script'') s)
   \<and> (remove_scripts_styles s = remove_scripts_styles t \<longrightarrow> html_to_text L s = html_to_text L t)
   \<and> (\<not> str_contains (ustr ''<script'') a \<and> 62 \<notin> set attrs \<and> \<not> str_contains (ustr ''</script>'') b
      \<longrightarrow> html_to_text L (a @ ustr ''<script'' @ attrs @ ustr ''>'' @ b @ ustr ''</script>'' @ c)
            = html_to_text L (a @ ustr '' '' @ c))
   \<and> (\<not> str_contains (ustr ''<script'') a \<and> \<not> str_contains (ustr ''<style'') a
       \<and> 62 \<notin> set attrs \<and> \<not> str_contains (ustr ''<script'') attrs
       \<and> \<not> str_contains (ustr ''</style>'') b \<and> \<not> str_contains (ustr ''<script'') b
      \<longrightarrow> html_to_text L (a @ ustr ''<style'' @ attrs @ ustr ''>'' @ b @ ustr ''</style>'' @ c)
            = html_to_text L (a @ ustr '' '' @ c))"
proof (intro conjI impI)
  show "remove_scripts_styles s
     = remove_blocks_spec (ustr ''style'') (remove_blocks_spec (ustr ''script'') s)"
    by (rule remove_scripts_styles_spec)
next
  assume "remove_scripts_styles s = remove_scripts_styles t"
  then show "html_to_text L s = html_to_text L t" by (rule html_to_text_cong)
next
  assume h: "\<not> str_contains (ustr ''<script'') a \<and> 62 \<notin> set attrs
      \<and> \<not> str_contains (ustr ''</script>'') b"
  have "remove_scripts_styles (a @ ustr ''<script'' @ attrs @ ustr ''>'' @ b @ ustr ''</script>'' @ c)
      = remove_scripts_styles (a @ ustr '' '' @ c)"
    using h by (simp add: remove_scripts_styles_def script_pass_block script_pass_space)
  then show "html_to_text L (a @ ustr ''<script'' @ attrs @ ustr ''>'' @ b @ ustr ''</script>'' @ c)
            = html_to_text L (a @ ustr '' '' @ c)"
    by (rule html_to_text_cong)
next
  assume h: "\<not> str_contains (ustr ''<script'') a \<and> \<not> str_contains (ustr ''<style'') a
       \<and> 62 \<notin> set attrs \<and> \<not> str_contains (ustr ''<script'') attrs
       \<and> \<not> str_contains (ustr ''</style>'') b \<and> \<not> str_contains (ustr ''<script'') b"
  have "remove_scripts_styles (a @ ustr ''<style'' @ attrs @ ustr ''>'' @ b @ ustr ''</style>'' @ c)
      = remove_scripts_styles (a @ ustr '' '' @ c)"
    using h
    by (simp add: remove_scripts_styles_def script_pass_style_block script_pass_space
        style_pass_block style_pass_space)
  then show "html_to_text L (a @ ustr ''<style'' @ attrs @ ustr ''>'' @ b @ ustr ''</style>'' @ c)
            = html_to_text L (a @ ustr '' '' @ c)"
    by (rule html_to_text_cong)
qed


lemma html_to_text_a_b: "html_to_text ascii_lib (ustr ''a'' @ ustr '' '' @ ustr ''b'') = Inr (ustr ''a b'')"
  by (simp add: html_defs matcher_defs ustr_def is_space_def Let_def)

lemma nested_spec:
  "remove_blocks_spec (ustr ''style'')
     (remove_blocks_spec (ustr ''script'') (ustr ''<style>x<script</style>y</script>z''))
   = ustr ''<style>x z''"
  by (simp add: first_block_spec_def ustr_def)


theorem script_style_blocks_removed_witness:
  "html_to_text ascii_lib
     (ustr ''a'' @ ustr ''<script'' @ ustr '' defer'' @ ustr ''>'' @ (10 # ustr ''x<y'')
        @ ustr ''</script>'' @ ustr ''b'') = Inr (ustr ''a b'')
   \<and> html_to_text ascii_lib
     (ustr ''a'' @ ustr ''<style'' @ [] @ ustr ''>'' @ (10 # ustr ''p{}'')
        @ ustr ''</style>'' @ ustr ''b'') = Inr (ustr ''a b'')
   \<and> remove_scripts_styles (ustr ''<style>x<script</style>y</script>z'') = ustr ''<style>x z''"
proof -
  have h: "\<not> str_contains (ustr ''<script'') (ustr ''a'')" "62 \<notin> set (ustr '' defer'')"
    "\<not> str_contains (ustr ''</script>'') (10 # ustr ''x<y'')"
    "\<not> str_contains (ustr ''<style'') (ustr ''a'')" "62 \<notin> set ([] :: ustring)"
    "\<not> str_contains (ustr ''<script'') ([] :: ustring)"
    "\<not> str_contains (ustr ''</style>'') (10 # ustr ''p{}'')"
    "\<not> str_contains (ustr ''<script'') (10 # ustr ''p{}'')"
    by (simp_all add: str_contains_def ustr_def)
  note t1 = script_style_blocks_removed [where a = "ustr ''a''" and attrs = "ustr '' defer''"
      and b = "10 # ustr ''x<y''" and L = ascii_lib and c = "ustr ''b''"
      and s = "ustr ''<style>x<script</style>y</script>z''"
      and t = "ustr ''<style>x<script</style>y</script>z''"]
  note t2 = script_style_blocks_removed [where a = "ustr ''a''" and attrs = "[]"
      and b = "10 # ustr ''p{}''" and L = ascii_lib and c = "ustr ''b''"
      and s = "ustr ''<style>x<script</style>y</script>z''"
      and t = "ustr ''<style>x<script</style>y</script>z''"]
  have 1: "html_to_text ascii_lib
     (ustr ''a'' @ ustr ''<script'' @ ustr '' defer'' @ ustr ''>'' @ (10 # ustr ''x<y'')
        @ ustr ''</script>'' @ ustr ''b'') = Inr (ustr ''a b'')"
    using t1 h html_to_text_a_b by presburger
  have 2: "html_to_text ascii_lib
     (ustr ''a'' @ ustr ''<style'' @ [] @ ustr ''>'' @ (10 # ustr ''p{}'')
        @ ustr ''</style>'' @ ustr ''b'') = Inr (ustr ''a b'')"
    using t2 h html_to_text_a_b by presburger
  have 3: "remove_scripts_styles (ustr ''<style>x<script</style>y</script>z'') = ustr ''<style>x z''"
    using t1 nested_spec by presburger
  show ?thesis using 1 2 3 by blast
qed

end
